theory Spec2Isabelle
  imports Main
begin

section \<open>Strings and the JavaScript built-ins\<close>

text \<open>
  A JavaScript string is a sequence of UTF-16 code units, and \<open>length\<close>, indexing and
  \<open>===\<close> work on code units.  A code unit is modelled by its number, a string by the
  list of its code units.
\<close>

type_synonym jschar = nat
type_synonym jsstring = "jschar list"

text \<open>
  \<open>String.prototype.normalize("NFD")\<close> and \<open>String.prototype.toUpperCase\<close> belong to
  the JavaScript runtime, not to the repository.  They are parameters of the model:
  every theorem below holds for whatever functions the runtime provides.
\<close>

record JSRuntime =
  normalizeNFD :: "jsstring \<Rightarrow> jsstring"
  toUpperCase :: "jsstring \<Rightarrow> jsstring"

text \<open>The character class of the regular expression: the code units U+0300 to U+036F
  (the combining diacritical marks).\<close>

definition isCombiningMark :: "jschar \<Rightarrow> bool" where
  "isCombiningMark c \<longleftrightarrow> 768 \<le> c \<and> c \<le> 879"

text \<open>
  \<open>str ? str.normalize("NFD").replace(/[U+0300-U+036F]/g, "").toUpperCase() : ''\<close>:
  the empty string is falsy and is returned as it is.
\<close>

definition normalizeString :: "JSRuntime \<Rightarrow> jsstring \<Rightarrow> jsstring" where
  "normalizeString rt str =
     (if str = [] then []
      else toUpperCase rt (filter (\<lambda>c. \<not> isCombiningMark c) (normalizeNFD rt str)))"

subsection \<open>A runtime instance for running the model\<close>

text \<open>
  To run the model on concrete input the two built-ins are needed as functions.
  \<open>latin1Runtime\<close> gives them as Unicode defines them on strings of code units below
  U+0100 (Basic Latin and Latin-1 Supplement): the canonical decomposition of the
  accented letters U+00C0 to U+00FF into base letter and combining mark, and the upper
  case mapping.  Other code units are passed through.  It is used in examples only.
\<close>

definition latin1Marks :: "(nat \<times> jschar \<times> jschar) list" where
  "latin1Marks =
     [(0, 65, 768), (1, 65, 769), (2, 65, 770), (3, 65, 771), (4, 65, 776), (5, 65, 778),
      (7, 67, 807),
      (8, 69, 768), (9, 69, 769), (10, 69, 770), (11, 69, 776),
      (12, 73, 768), (13, 73, 769), (14, 73, 770), (15, 73, 776),
      (17, 78, 771),
      (18, 79, 768), (19, 79, 769), (20, 79, 770), (21, 79, 771), (22, 79, 776),
      (25, 85, 768), (26, 85, 769), (27, 85, 770), (28, 85, 776),
      (29, 89, 769)]"

definition latin1Decompose :: "jschar \<Rightarrow> jsstring" where
  "latin1Decompose c =
     (if c = 255 then [121, 776]
      else if 192 \<le> c \<and> c < 255 then
        (case map_of latin1Marks ((c - 192) mod 32) of
           None \<Rightarrow> [c]
         | Some (base, mark) \<Rightarrow> [if 224 \<le> c then base + 32 else base, mark])
      else [c])"

definition latin1Upper :: "jschar \<Rightarrow> jsstring" where
  "latin1Upper c =
     (if 97 \<le> c \<and> c \<le> 122 then [c - 32]
      else if c = 181 then [924]
      else if c = 223 then [83, 83]
      else if c = 255 then [376]
      else if 224 \<le> c \<and> c \<le> 254 \<and> c \<noteq> 247 then [c - 32]
      else [c])"

definition latin1Runtime :: JSRuntime where
  "latin1Runtime =
     \<lparr> normalizeNFD = (\<lambda>s. concat (map latin1Decompose s)),
       toUpperCase = (\<lambda>s. concat (map latin1Upper s)) \<rparr>"

section \<open>Data model\<close>

datatype direction = Across | Down

text \<open>
  A grid cell \<open>{ letter, clueNumber?, across?, down? }\<close>.  The letter is always one
  code unit (\<open>word[i]\<close>); an absent optional field is \<open>None\<close>.
\<close>

record Cell =
  letter :: jschar
  clueNumber :: "nat option"
  across :: "nat option"
  down :: "nat option"

text \<open>JavaScript truthiness of an optional number: defined and not zero.\<close>

definition truthyNum :: "nat option \<Rightarrow> bool" where
  "truthyNum x = (case x of None \<Rightarrow> False | Some n \<Rightarrow> n \<noteq> 0)"

definition GRID_SIZE :: int where
  "GRID_SIZE = 30"

section \<open>The interactive solver (CrosswordViewer)\<close>

text \<open>
  The viewer receives the grid as a property of type \<open>(Cell | null)[][]\<close>; the property
  itself may be missing, which the handlers test with \<open>!grid\<close> and \<open>grid?.\<close>.
  The keys of \<open>userInput\<close> are the template strings \<open>`${row}-${col}`\<close>, which are
  different for different pairs of integers; a key is modelled by the pair.
\<close>

type_synonym PuzzleGrid = "Cell option list list"

record SolverState =
  userInput :: "int \<times> int \<rightharpoonup> jsstring"
  selectedCell :: "(int \<times> int \<times> direction) option"
  isChecking :: bool

text \<open>The three \<open>useState\<close> initial values, also set by the effect run on puzzle load.\<close>

definition initialSolverState :: SolverState where
  "initialSolverState = \<lparr> userInput = Map.empty, selectedCell = None, isChecking = False \<rparr>"

text \<open>
  \<open>grid?.[row]?.[col]\<close>: an index outside an array gives \<open>undefined\<close>, which is falsy
  as \<open>null\<close> is; both are \<open>None\<close>.
\<close>

definition rowLookup :: "Cell option list \<Rightarrow> int \<Rightarrow> Cell option" where
  "rowLookup cells col =
     (if 0 \<le> col \<and> col < int (length cells) then cells ! nat col else None)"

definition gridLookup :: "PuzzleGrid option \<Rightarrow> int \<Rightarrow> int \<Rightarrow> Cell option" where
  "gridLookup grid row col =
     (case grid of
        None \<Rightarrow> None
      | Some g \<Rightarrow> if 0 \<le> row \<and> row < int (length g) then rowLookup (g ! nat row) col else None)"

definition handleCellClick :: "PuzzleGrid option \<Rightarrow> SolverState \<Rightarrow> int \<Rightarrow> int \<Rightarrow> SolverState" where
  "handleCellClick grid s row col =
     (case gridLookup grid row col of
        None \<Rightarrow> s\<lparr>selectedCell := None\<rparr>
      | Some cell \<Rightarrow>
          (let fresh = s\<lparr>selectedCell :=
                 Some (row, col, if truthyNum (across cell) then Across else Down)\<rparr>
           in case selectedCell s of
                None \<Rightarrow> fresh
              | Some (srow, scol, sdir) \<Rightarrow>
                  if srow = row \<and> scol = col then
                    (if sdir = Across \<and> truthyNum (down cell)
                       then s\<lparr>selectedCell := Some (row, col, Down)\<rparr>
                     else if sdir = Down \<and> truthyNum (across cell)
                       then s\<lparr>selectedCell := Some (row, col, Across)\<rparr>
                     else s)
                  else fresh))"

text \<open>
  \<open>handleInputChange\<close> stores the normalised value under the cell's key.  Its second
  half only moves the keyboard focus in the document and touches no solver state; the
  update of \<open>userInput\<close> is queued before it runs.
\<close>

definition handleInputChange ::
    "JSRuntime \<Rightarrow> SolverState \<Rightarrow> jsstring \<Rightarrow> int \<Rightarrow> int \<Rightarrow> SolverState" where
  "handleInputChange rt s v row col =
     s\<lparr>userInput := (userInput s)((row, col) \<mapsto> normalizeString rt v)\<rparr>"

text \<open>
  The grid renders an \<open><input>\<close> only for a non-null cell, with
  \<open>disabled={isChecking}\<close> and \<open>onChange={(e) => handleInputChange(e, r, c)}\<close>; an empty
  cell is a bare \<open><div>\<close>.  A disabled input accepts no typing and dispatches no change
  event.  \<open>cellInputChange\<close> is typing \<open>v\<close> into the cell at \<open>(row, col)\<close>.
\<close>

definition cellInputChange ::
    "JSRuntime \<Rightarrow> PuzzleGrid option \<Rightarrow> SolverState \<Rightarrow> jsstring \<Rightarrow> int \<Rightarrow> int \<Rightarrow> SolverState" where
  "cellInputChange rt grid s v row col =
     (case gridLookup grid row col of
        None \<Rightarrow> s
      | Some cell \<Rightarrow> if isChecking s then s else handleInputChange rt s v row col)"


definition handleCheck :: "SolverState \<Rightarrow> SolverState" where
  "handleCheck s = s\<lparr>isChecking := True\<rparr>"

text \<open>
  \<open>grid.forEach((row, r) => row.forEach((cell, c) => { if (cell) solution[key] = cell.letter }))\<close>
\<close>

definition revealRow ::
    "int \<Rightarrow> Cell option list \<Rightarrow> (int \<times> int \<rightharpoonup> jsstring) \<Rightarrow> (int \<times> int \<rightharpoonup> jsstring)" where
  "revealRow r cells solution =
     fold (\<lambda>(c, cell) m. case cell of None \<Rightarrow> m | Some cl \<Rightarrow> m((r, int c) \<mapsto> [letter cl]))
          (enumerate 0 cells) solution"

definition revealSolution :: "PuzzleGrid \<Rightarrow> (int \<times> int \<rightharpoonup> jsstring)" where
  "revealSolution g = fold (\<lambda>(r, cells) m. revealRow (int r) cells m) (enumerate 0 g) Map.empty"

definition handleReveal :: "PuzzleGrid option \<Rightarrow> SolverState \<Rightarrow> SolverState" where
  "handleReveal grid s =
     (case grid of
        None \<Rightarrow> s
      | Some g \<Rightarrow> s\<lparr>userInput := revealSolution g, isChecking := False\<rparr>)"

definition handleReset :: "SolverState \<Rightarrow> SolverState" where
  "handleReset s = s\<lparr>userInput := Map.empty, isChecking := False, selectedCell := None\<rparr>"

subsection \<open>An example position\<close>

text \<open>
  A one-row grid \<open>[null, G, A]\<close> (the letters of an across word numbered 1) and a solver
  state in which the cell \<open>G\<close> is selected, one letter is typed and a check is running.
\<close>

definition exampleRow :: PuzzleGrid where
  "exampleRow =
     [[None,
       Some \<lparr> letter = 71, clueNumber = Some 1, across = Some 1, down = None \<rparr>,
       Some \<lparr> letter = 65, clueNumber = None, across = Some 1, down = None \<rparr>]]"

definition exampleSolverState :: SolverState where
  "exampleSolverState =
     \<lparr> userInput = [(0, 1) \<mapsto> [71]], selectedCell = Some (0, 1, Across), isChecking = True \<rparr>"


section \<open>Word normalisation (handleGeneratePuzzle, first part)\<close>

record WordEntry =
  word :: jsstring
  clue :: jsstring

text \<open>ASCII literals: \<open>js ''GATO''\<close> is the JavaScript string \<open>"GATO"\<close>.\<close>

definition js :: "string \<Rightarrow> jsstring" where
  "js s = map of_char s"

text \<open>
  \<open>String.prototype.trim\<close> removes the white space and line terminator code units of
  ECMAScript from both ends.
\<close>

definition isWhiteSpace :: "jschar \<Rightarrow> bool" where
  "isWhiteSpace c \<longleftrightarrow>
     c \<in> {9, 10, 11, 12, 13, 32, 160, 5760, 8232, 8233, 8239, 8287, 12288, 65279}
     \<or> (8192 \<le> c \<and> c \<le> 8202)"

definition trim :: "jsstring \<Rightarrow> jsstring" where
  "trim s = rev (dropWhile isWhiteSpace (rev (dropWhile isWhiteSpace s)))"

text \<open>
  \<open>wordEntries.map(entry => ({ word: normalizeString(entry.word), clue: entry.clue.trim() }))
    .filter(item => item.word.length > 1 && item.clue.length > 0)\<close>
\<close>

definition normalizeEntry :: "JSRuntime \<Rightarrow> WordEntry \<Rightarrow> WordEntry" where
  "normalizeEntry rt entry = \<lparr> word = normalizeString rt (word entry), clue = trim (clue entry) \<rparr>"

definition keepEntry :: "WordEntry \<Rightarrow> bool" where
  "keepEntry item \<longleftrightarrow> length (word item) > 1 \<and> length (clue item) > 0"

definition normalizeEntries :: "JSRuntime \<Rightarrow> WordEntry list \<Rightarrow> WordEntry list" where
  "normalizeEntries rt wordEntries = filter keepEntry (map (normalizeEntry rt) wordEntries)"

text \<open>
  A JavaScript \<open>Map\<close> keeps its entries in insertion order; \<open>set\<close> on a key already
  present replaces the value where the key stands, on a new key it appends.
\<close>

fun mapSet :: "'k \<Rightarrow> 'v \<Rightarrow> ('k \<times> 'v) list \<Rightarrow> ('k \<times> 'v) list" where
  "mapSet k v [] = [(k, v)]"
| "mapSet k v (p # ps) = (if fst p = k then (k, v) # ps else p # mapSet k v ps)"

text \<open>\<open>[...new Map(words.map(item => [item.word, item])).values()]\<close>\<close>

definition dedupeWords :: "WordEntry list \<Rightarrow> WordEntry list" where
  "dedupeWords ws = map snd (fold (\<lambda>item m. mapSet (word item) item m) ws [])"

text \<open>
  \<open>words.sort((a, b) => b.word.length - a.word.length)\<close>: \<open>Array.prototype.sort\<close> is
  stable, so the result is the stable sort by decreasing length.
\<close>

definition sortWords :: "WordEntry list \<Rightarrow> WordEntry list" where
  "sortWords ws = sort_key (\<lambda>e. - int (length (word e))) ws"

definition prepareWords :: "JSRuntime \<Rightarrow> WordEntry list \<Rightarrow> WordEntry list" where
  "prepareWords rt wordEntries = sortWords (dedupeWords (normalizeEntries rt wordEntries))"

section \<open>Crossword construction (handleGeneratePuzzle, second part)\<close>

text \<open>
  The errors the construction can throw: the two \<open>throw new Error(...)\<close> of the source
  (fewer than two valid words; empty word list) and the \<open>TypeError\<close> that JavaScript
  raises when an element of \<open>undefined\<close> is read or written.
\<close>

datatype error = ValidationError | EmptyListError | TypeError

text \<open>
  \<open>newGrid\<close> is an array of \<open>GRID_SIZE\<close> row arrays.  For an integer \<open>r\<close> outside
  \<open>0 .. GRID_SIZE - 1\<close> the row \<open>newGrid[r]\<close> is \<open>undefined\<close>, and reading or writing
  \<open>newGrid[r][c]\<close> throws.  A row is a JavaScript array: \<open>newGrid[r][c]\<close> is \<open>null\<close> or
  \<open>undefined\<close> (both falsy, \<open>None\<close> here) until a cell is stored under \<open>c\<close>, for any
  integer \<open>c\<close>, also below 0 or from \<open>GRID_SIZE\<close> on, and then gives the stored cell.
  So the grid is a table from integer positions to cells, with the test of the row
  written out at every access.
\<close>

type_synonym Grid = "int \<times> int \<Rightarrow> Cell option"

definition emptyGrid :: Grid where
  "emptyGrid = (\<lambda>pos. None)"

definition rowDefined :: "int \<Rightarrow> bool" where
  "rowDefined r \<longleftrightarrow> 0 \<le> r \<and> r < GRID_SIZE"

text \<open>The truth value of \<open>newGrid[r][c]\<close>.\<close>

definition truthyCell :: "Grid \<Rightarrow> int \<Rightarrow> int \<Rightarrow> error + bool" where
  "truthyCell g r c = (if rowDefined r then Inr (g (r, c) \<noteq> None) else Inl TypeError)"

text \<open>The truth value of \<open>newGrid[r]?.[c]\<close>, which does not throw.\<close>

definition truthyCellSafe :: "Grid \<Rightarrow> int \<Rightarrow> int \<Rightarrow> bool" where
  "truthyCellSafe g r c \<longleftrightarrow> rowDefined r \<and> g (r, c) \<noteq> None"

text \<open>The cell of letter \<open>i\<close> of a word at \<open>(row, col)\<close>: \<open>(row, col + i)\<close> or \<open>(row + i, col)\<close>.\<close>

definition letterPos :: "direction \<Rightarrow> int \<Rightarrow> int \<Rightarrow> nat \<Rightarrow> int \<times> int" where
  "letterPos d row col i = (if d = Across then (row, col + int i) else (row + int i, col))"

text \<open>
  The \<open>for\<close> loop of \<open>canPlaceWord\<close>, from index \<open>i\<close> on; the list holds the letters
  \<open>word[i], word[i + 1], ...\<close> still to check.
\<close>

fun checkLetters :: "Grid \<Rightarrow> direction \<Rightarrow> int \<Rightarrow> int \<Rightarrow> nat \<Rightarrow> jsstring \<Rightarrow> error + bool" where
  "checkLetters g d row col i [] = Inr True"
| "checkLetters g d row col i (x # xs) =
     (let (r, c) = letterPos d row col i in
      if \<not> rowDefined r then Inl TypeError
      else case g (r, c) of
        Some cell \<Rightarrow>
          if letter cell \<noteq> x then Inr False else checkLetters g d row col (Suc i) xs
      | None \<Rightarrow>
          (case (if d = Across
                 then (if r > 0 then truthyCell g (r - 1) c else Inr False)
                 else (if c > 0 then truthyCell g r (c - 1) else Inr False)) of
             Inl e \<Rightarrow> Inl e
           | Inr True \<Rightarrow> Inr False
           | Inr False \<Rightarrow>
               (case (if d = Across
                      then (if r < GRID_SIZE - 1 then truthyCell g (r + 1) c else Inr False)
                      else (if c < GRID_SIZE - 1 then truthyCell g r (c + 1) else Inr False)) of
                  Inl e \<Rightarrow> Inl e
                | Inr True \<Rightarrow> Inr False
                | Inr False \<Rightarrow> checkLetters g d row col (Suc i) xs)))"

definition canPlaceWord :: "Grid \<Rightarrow> jsstring \<Rightarrow> int \<Rightarrow> int \<Rightarrow> direction \<Rightarrow> error + bool" where
  "canPlaceWord g w row col d =
     (if row < 0 \<or> col < 0 then Inr False
      else if d = Across then
        (if col + int (length w) > GRID_SIZE then Inr False
         else case (if col > 0 then truthyCell g row (col - 1) else Inr False) of
           Inl e \<Rightarrow> Inl e
         | Inr True \<Rightarrow> Inr False
         | Inr False \<Rightarrow>
             (case (if col + int (length w) < GRID_SIZE
                    then truthyCell g row (col + int (length w)) else Inr False) of
                Inl e \<Rightarrow> Inl e
              | Inr True \<Rightarrow> Inr False
              | Inr False \<Rightarrow> checkLetters g Across row col 0 w))
      else
        (if row + int (length w) > GRID_SIZE then Inr False
         else case (if row > 0 then truthyCell g (row - 1) col else Inr False) of
           Inl e \<Rightarrow> Inl e
         | Inr True \<Rightarrow> Inr False
         | Inr False \<Rightarrow>
             (case (if row + int (length w) < GRID_SIZE
                    then truthyCell g (row + int (length w)) col else Inr False) of
                Inl e \<Rightarrow> Inl e
              | Inr True \<Rightarrow> Inr False
              | Inr False \<Rightarrow> checkLetters g Down row col 0 w)))"

subsection \<open>placeWordOnGrid\<close>

text \<open>A placed word \<open>{ ...wordObj, row, col, direction }\<close>.\<close>

record PlacedWord = WordEntry +
  row :: int
  col :: int
  direction :: direction

text \<open>A clue \<open>{ number, clue }\<close> is the pair of the number and the clue text.\<close>

type_synonym Clue = "nat \<times> jsstring"

text \<open>
  The variables of the construction that \<open>placeWordOnGrid\<close> and the search read and
  write: \<open>newGrid\<close>, \<open>newClues.across\<close>, \<open>newClues.down\<close>, \<open>clueCounter\<close>, \<open>placedWords\<close>
  and \<open>numberLocations\<close>, whose keys \<open>`${row}-${col}`\<close> are modelled by the pairs.
\<close>

record GenState =
  newGrid :: Grid
  acrossClues :: "Clue list"
  downClues :: "Clue list"
  clueCounter :: nat
  placedWords :: "PlacedWord list"
  numberLocations :: "int \<times> int \<rightharpoonup> nat"

definition initialGenState :: GenState where
  "initialGenState =
     \<lparr> newGrid = emptyGrid, acrossClues = [], downClues = [], clueCounter = 1,
       placedWords = [], numberLocations = Map.empty \<rparr>"

text \<open>
  The body of the \<open>for\<close> loop of \<open>placeWordOnGrid\<close> on one cell: a new cell
  \<open>{ letter: word[i] }\<close> if there is none, then \<open>cell[direction] = clueNum\<close>, then
  \<open>cell.clueNumber = clueNum\<close> for the first letter.
\<close>

definition stampCell :: "direction \<Rightarrow> nat \<Rightarrow> nat \<Rightarrow> jschar \<Rightarrow> Cell option \<Rightarrow> Cell" where
  "stampCell d clueNum i x old =
     (let cell0 = (case old of
                     None \<Rightarrow> \<lparr> letter = x, clueNumber = None, across = None, down = None \<rparr>
                   | Some cell \<Rightarrow> cell);
          cell1 = (if d = Across then cell0\<lparr>across := Some clueNum\<rparr>
                   else cell0\<lparr>down := Some clueNum\<rparr>)
      in if i = 0 then cell1\<lparr>clueNumber := Some clueNum\<rparr> else cell1)"

fun writeLetters :: "Grid \<Rightarrow> direction \<Rightarrow> nat \<Rightarrow> int \<Rightarrow> int \<Rightarrow> nat \<Rightarrow> jsstring \<Rightarrow> error + Grid" where
  "writeLetters g d clueNum row0 col0 i [] = Inr g"
| "writeLetters g d clueNum row0 col0 i (x # xs) =
     (let (r, c) = letterPos d row0 col0 i in
      if \<not> rowDefined r then Inl TypeError
      else writeLetters (g((r, c) := Some (stampCell d clueNum i x (g (r, c)))))
             d clueNum row0 col0 (Suc i) xs)"

definition placeWordOnGrid ::
    "GenState \<Rightarrow> WordEntry \<Rightarrow> int \<Rightarrow> int \<Rightarrow> direction \<Rightarrow> error + GenState" where
  "placeWordOnGrid s wordObj row0 col0 d =
     (let (clueNum, s1) =
            (case numberLocations s (row0, col0) of
               Some n \<Rightarrow> (n, s)
             | None \<Rightarrow>
                 (clueCounter s,
                  s\<lparr>clueCounter := clueCounter s + 1,
                    numberLocations := (numberLocations s)((row0, col0) \<mapsto> clueCounter s)\<rparr>));
          s2 = (if d = Across
                then s1\<lparr>acrossClues := acrossClues s1 @ [(clueNum, clue wordObj)]\<rparr>
                else s1\<lparr>downClues := downClues s1 @ [(clueNum, clue wordObj)]\<rparr>)
      in case writeLetters (newGrid s2) d clueNum row0 col0 0 (word wordObj) of
           Inl e \<Rightarrow> Inl e
         | Inr g \<Rightarrow> Inr (s2\<lparr>newGrid := g\<rparr>))"

definition placedAt :: "WordEntry \<Rightarrow> int \<Rightarrow> int \<Rightarrow> direction \<Rightarrow> PlacedWord" where
  "placedAt wordObj r c d =
     \<lparr> word = word wordObj, clue = clue wordObj, row = r, col = c, direction = d \<rparr>"

subsection \<open>The search for the best crossing of one word\<close>

text \<open>A \<open>for\<close> loop whose body may throw: the first error ends it.\<close>

fun forEachE :: "('a \<Rightarrow> 'b \<Rightarrow> error + 'b) \<Rightarrow> 'a list \<Rightarrow> 'b \<Rightarrow> error + 'b" where
  "forEachE f [] acc = Inr acc"
| "forEachE f (x # xs) acc = (case f x acc of Inl e \<Rightarrow> Inl e | Inr acc' \<Rightarrow> forEachE f xs acc')"

text \<open>The number of letters of the word that would land on filled cells.\<close>

definition countIntersections :: "Grid \<Rightarrow> jsstring \<Rightarrow> int \<Rightarrow> int \<Rightarrow> direction \<Rightarrow> nat" where
  "countIntersections g w row0 col0 d =
     length (filter (\<lambda>l. case letterPos d row0 col0 l of (r, c) \<Rightarrow> truthyCellSafe g r c)
               [0..<length w])"

text \<open>
  The body of the innermost loop, for letter \<open>j\<close> of the word and letter \<open>k\<close> of the
  placed word \<open>pWord\<close>; the accumulator is \<open>(bestFit, maxIntersections)\<close>.
\<close>

type_synonym BestFit = "(int \<times> int \<times> direction) option \<times> nat"

definition tryCrossing ::
    "Grid \<Rightarrow> jsstring \<Rightarrow> nat \<Rightarrow> PlacedWord \<Rightarrow> nat \<Rightarrow> BestFit \<Rightarrow> error + BestFit" where
  "tryCrossing g w j pWord k acc =
     (if w ! j = word pWord ! k then
        (let d = (if direction pWord = Across then Down else Across);
             r = (if d = Down then row pWord - int j else row pWord + int k);
             c = (if d = Down then col pWord + int k else col pWord - int j)
         in case canPlaceWord g w r c d of
              Inl e \<Rightarrow> Inl e
            | Inr False \<Rightarrow> Inr acc
            | Inr True \<Rightarrow>
                (let intersections = countIntersections g w r c d
                 in if intersections > snd acc then Inr (Some (r, c, d), intersections)
                    else Inr acc))
      else Inr acc)"

definition findBestFit :: "Grid \<Rightarrow> PlacedWord list \<Rightarrow> jsstring \<Rightarrow> error + BestFit" where
  "findBestFit g placed w =
     forEachE (\<lambda>j. forEachE (\<lambda>pWord. forEachE (\<lambda>k. tryCrossing g w j pWord k)
                                           [0..<length (word pWord)]) placed)
       [0..<length w] (None, 0)"

subsection \<open>The passes over the pending words\<close>

text \<open>
  One pass \<open>for (let i = words.length - 1; i >= 0; i--)\<close>, from \<open>i = n - 1\<close> down: the
  first word with a best fit is placed and spliced out, and the pass ends (\<open>Some\<close>);
  \<open>None\<close> is a pass that placed nothing.
\<close>

fun scanWords :: "GenState \<Rightarrow> WordEntry list \<Rightarrow> nat \<Rightarrow> error + (GenState \<times> WordEntry list) option" where
  "scanWords s words 0 = Inr None"
| "scanWords s words (Suc i) =
     (let wordObj = words ! i in
      case findBestFit (newGrid s) (placedWords s) (word wordObj) of
        Inl e \<Rightarrow> Inl e
      | Inr (bestFit, maxIntersections) \<Rightarrow>
          (case bestFit of
             None \<Rightarrow> scanWords s words i
           | Some (r, c, d) \<Rightarrow>
               if maxIntersections > 0 then
                 (case placeWordOnGrid s wordObj r c d of
                    Inl e \<Rightarrow> Inl e
                  | Inr s' \<Rightarrow>
                      Inr (Some (s'\<lparr>placedWords := placedWords s' @ [placedAt wordObj r c d]\<rparr>,
                                 take i words @ drop (Suc i) words)))
               else scanWords s words i))"

text \<open>
  The \<open>while\<close> loop.  \<open>passes\<close> counts the executions of its body; it is not a
  variable of the source, and nothing in the model reads it.
\<close>

function placementLoop ::
    "GenState \<Rightarrow> WordEntry list \<Rightarrow> nat \<Rightarrow> nat \<Rightarrow> error + (GenState \<times> WordEntry list \<times> nat)" where
  "placementLoop s words attempts passes =
     (if length words > 0 \<and> attempts < length words then
        (case scanWords s words (length words) of
           Inl e \<Rightarrow> Inl e
         | Inr (Some (s', words')) \<Rightarrow> placementLoop s' words' 0 (passes + 1)
         | Inr None \<Rightarrow> placementLoop s words (attempts + 1) (passes + 1))
      else Inr (s, words, passes))"
  by pat_completeness auto
termination
proof -
  have shrink: "length ws' < length ws"
    if "scanWords st ws n = Inr (Some (st', ws'))" and "n \<le> length ws" for st ws n st' ws'
    using that
    by (induction n) (auto split: sum.splits option.splits if_splits prod.splits simp: Let_def)
  show ?thesis
  proof (relation "measures [\<lambda>(s, ws, attempts, passes). length ws,
                             \<lambda>(s, ws, attempts, passes). length ws - attempts]", goal_cases)
    case 1
    show ?case by simp
  next
    case 2
    then show ?case by auto
  next
    case 3
    then show ?case by (auto dest: shrink [OF _ le_refl])
  qed
qed

declare placementLoop.simps [simp del]

subsection \<open>The whole construction\<close>

text \<open>
  The puzzle \<open>{ grid, clues: { across, down } }\<close>, and what a run of the construction
  leaves: the puzzle, the placed words, the words that did not fit and the number of
  passes.
\<close>

record Puzzle =
  grid :: Grid
  cluesAcross :: "Clue list"
  cluesDown :: "Clue list"

record Construction =
  puzzle :: Puzzle
  placed :: "PlacedWord list"
  unplaced :: "WordEntry list"
  passCount :: nat

text \<open>
  From the test \<open>words.length < 2\<close> to the two \<open>sort\<close> calls on the clue lists
  (\<open>Math.floor\<close> of a quotient is \<open>div\<close> on integers).
\<close>

definition buildPuzzle :: "WordEntry list \<Rightarrow> error + Construction" where
  "buildPuzzle ws =
     (if length ws < 2 then Inl ValidationError
      else case ws of
        [] \<Rightarrow> Inl EmptyListError
      | firstWord # rest \<Rightarrow>
          (let startRow = GRID_SIZE div 2;
               startCol = (GRID_SIZE - int (length (word firstWord))) div 2
           in case placeWordOnGrid initialGenState firstWord startRow startCol Across of
                Inl e \<Rightarrow> Inl e
              | Inr s1 \<Rightarrow>
                  (case placementLoop
                          (s1\<lparr>placedWords :=
                                placedWords s1 @ [placedAt firstWord startRow startCol Across]\<rparr>)
                          rest 0 0 of
                     Inl e \<Rightarrow> Inl e
                   | Inr (s2, remaining, n) \<Rightarrow>
                       Inr \<lparr> puzzle = \<lparr> grid = newGrid s2,
                                        cluesAcross = sort_key fst (acrossClues s2),
                                        cluesDown = sort_key fst (downClues s2) \<rparr>,
                             placed = placedWords s2,
                             unplaced = remaining,
                             passCount = n \<rparr>)))"

definition generatePuzzle :: "JSRuntime \<Rightarrow> WordEntry list \<Rightarrow> error + Construction" where
  "generatePuzzle rt entries = buildPuzzle (prepareWords rt entries)"

subsection \<open>The effect of handleGeneratePuzzle on the application state\<close>

record CrosswordFormData =
  topic :: jsstring
  curricularComponent :: jsstring
  schoolYear :: jsstring
  wordEntries :: "WordEntry list"

text \<open>A saved crossword: the form data, the \<open>id\<close> and the puzzle (\<open>grid\<close>, \<open>clues\<close>).\<close>

record SavedCrossword = CrosswordFormData +
  crosswordId :: nat
  savedPuzzle :: Puzzle

text \<open>
  The text shown under the form: nothing, the message of a thrown error, or the list of
  the words that could not be fitted.
\<close>

datatype notice = NoMessage | ErrorMessage error | CouldNotFit "jsstring list"

record AppState =
  crosswordFormData :: CrosswordFormData
  savedCrosswords :: "SavedCrossword list"
  activeCrosswordId :: "nat option"
  generatedPuzzle :: "Puzzle option"
  generationError :: notice
  isLoading :: bool

text \<open>
  The callback of \<open>handleGeneratePuzzle\<close>, after the three updates made before it;
  \<open>now\<close> is the value of \<open>Date.now()\<close>.  A thrown error goes to the \<open>catch\<close> block, which
  only sets the message.
\<close>

definition handleGeneratePuzzle :: "JSRuntime \<Rightarrow> nat \<Rightarrow> AppState \<Rightarrow> AppState" where
  "handleGeneratePuzzle rt now st =
     (let st1 = st\<lparr>isLoading := True, generationError := NoMessage, generatedPuzzle := None\<rparr>;
          form = crosswordFormData st
      in case generatePuzzle rt (wordEntries form) of
           Inl e \<Rightarrow> st1\<lparr>generationError := ErrorMessage e, isLoading := False\<rparr>
         | Inr built \<Rightarrow>
             st1\<lparr>generationError :=
                   (if length (unplaced built) > 0 then CouldNotFit (map word (unplaced built))
                    else NoMessage),
                 savedCrosswords :=
                   \<lparr> topic = (if topic form = [] then js ''Palavra Cruzada'' else topic form),
                     curricularComponent = curricularComponent form,
                     schoolYear = schoolYear form,
                     wordEntries = map (\<lambda>p. \<lparr> word = word p, clue = clue p \<rparr>) (placed built),
                     crosswordId = now,
                     savedPuzzle = puzzle built \<rparr> # savedCrosswords st,
                 activeCrosswordId := Some now,
                 generatedPuzzle := None,
                 isLoading := False\<rparr>)"

text \<open>
  Example input of the normaliser.  The first list: a word that starts with a tab
  (U+0009), a word with a space on each side, a hyphenated word and a word of 21 letters.
  The second list: the word agua written with U+00E1 and \<open>"AGUA"\<close>, which normalise to
  the same word, a one-letter word and an entry whose clue is blank.
\<close>

definition exampleUnfiltered :: "WordEntry list" where
  "exampleUnfiltered =
     [\<lparr> word = 9 # js ''LUA'', clue = js ''Satelite'' \<rparr>,
      \<lparr> word = js '' SOL '', clue = js ''Estrela'' \<rparr>,
      \<lparr> word = js ''GUARDA-CHUVA'', clue = js ''Protege da chuva'' \<rparr>,
      \<lparr> word = js ''INCONSTITUCIONALMENTE'', clue = js ''Adverbio'' \<rparr>]"

definition exampleDuplicates :: "WordEntry list" where
  "exampleDuplicates =
     [\<lparr> word = [225, 103, 117, 97], clue = js '' Liquido '' \<rparr>,
      \<lparr> word = js ''a'', clue = js ''Vogal'' \<rparr>,
      \<lparr> word = js ''AGUA'', clue = js ''H2O'' \<rparr>,
      \<lparr> word = js ''sol'', clue = js ''  '' \<rparr>]"

section \<open>The feasibility test as the specification words it\<close>

text \<open>
  The conditions of the specification for \<open>canPlace(grid, word, row, col, direction)\<close>,
  written from its words and not from the code: the word fits inside the grid; the cell
  before its start and the cell after its end are empty or out of bounds; every letter
  meets an equal letter, or an empty cell whose two neighbours across the direction are
  empty or out of bounds.
\<close>

definition insideGrid :: "int \<times> int \<Rightarrow> bool" where
  "insideGrid pos \<longleftrightarrow>
     0 \<le> fst pos \<and> fst pos < GRID_SIZE \<and> 0 \<le> snd pos \<and> snd pos < GRID_SIZE"

definition emptyOrOutside :: "Grid \<Rightarrow> int \<times> int \<Rightarrow> bool" where
  "emptyOrOutside g pos \<longleftrightarrow> \<not> insideGrid pos \<or> g pos = None"

definition fitsInside :: "jsstring \<Rightarrow> int \<Rightarrow> int \<Rightarrow> direction \<Rightarrow> bool" where
  "fitsInside w r0 c0 d \<longleftrightarrow>
     0 \<le> r0 \<and> 0 \<le> c0 \<and>
     (if d = Across then r0 < GRID_SIZE \<and> c0 + int (length w) \<le> GRID_SIZE
      else c0 < GRID_SIZE \<and> r0 + int (length w) \<le> GRID_SIZE)"

definition sideNeighbours :: "direction \<Rightarrow> int \<times> int \<Rightarrow> (int \<times> int) list" where
  "sideNeighbours d pos =
     (if d = Across then [(fst pos - 1, snd pos), (fst pos + 1, snd pos)]
      else [(fst pos, snd pos - 1), (fst pos, snd pos + 1)])"

definition letterFeasible :: "Grid \<Rightarrow> direction \<Rightarrow> int \<times> int \<Rightarrow> jschar \<Rightarrow> bool" where
  "letterFeasible g d pos x \<longleftrightarrow>
     (case g pos of
        Some cell \<Rightarrow> letter cell = x
      | None \<Rightarrow> \<forall>q \<in> set (sideNeighbours d pos). emptyOrOutside g q)"

definition canPlaceSpec :: "Grid \<Rightarrow> jsstring \<Rightarrow> int \<Rightarrow> int \<Rightarrow> direction \<Rightarrow> bool" where
  "canPlaceSpec g w r0 c0 d \<longleftrightarrow>
     fitsInside w r0 c0 d \<and>
     emptyOrOutside g (if d = Across then (r0, c0 - 1) else (r0 - 1, c0)) \<and>
     emptyOrOutside g (letterPos d r0 c0 (length w)) \<and>
     (\<forall>i < length w. letterFeasible g d (letterPos d r0 c0 i) (w ! i))"

text \<open>The grid after \<open>GATO\<close> is placed across at row 15, column 13, as clue 1.\<close>

definition gatoGrid :: Grid where
  "gatoGrid = emptyGrid
     ((15, 13) := Some \<lparr> letter = 71, clueNumber = Some 1, across = Some 1, down = None \<rparr>,
      (15, 14) := Some \<lparr> letter = 65, clueNumber = None, across = Some 1, down = None \<rparr>,
      (15, 15) := Some \<lparr> letter = 84, clueNumber = None, across = Some 1, down = None \<rparr>,
      (15, 16) := Some \<lparr> letter = 79, clueNumber = None, across = Some 1, down = None \<rparr>)"

section \<open>Invariants of the construction\<close>

text \<open>
  What holds of the variables of the construction after every committed word: every
  placed word has letters, lies in rows of the grid, is written letter by letter in the
  grid and has a number at its start cell; the numbers are positive, below the counter
  and different for different cells, and a cell carries \<open>clueNumber\<close> exactly when its
  position has that number in \<open>numberLocations\<close>; every clue of a list belongs to a
  placed word of that direction that starts at the numbered cell, and every placed word
  has its clue in the list of its direction.
\<close>

definition wordRowsOk :: "PlacedWord \<Rightarrow> bool" where
  "wordRowsOk p \<longleftrightarrow>
     (\<forall>i < length (word p). rowDefined (fst (letterPos (direction p) (row p) (col p) i)))"

definition lettersOnGrid :: "Grid \<Rightarrow> PlacedWord \<Rightarrow> bool" where
  "lettersOnGrid g p \<longleftrightarrow>
     (\<forall>i < length (word p).
        \<exists>cell. g (letterPos (direction p) (row p) (col p) i) = Some cell \<and> letter cell = word p ! i)"

definition invPlaced :: "GenState \<Rightarrow> bool" where
  "invPlaced s \<longleftrightarrow>
     (\<forall>p \<in> set (placedWords s).
        word p \<noteq> [] \<and> wordRowsOk p \<and> lettersOnGrid (newGrid s) p \<and>
        numberLocations s (row p, col p) \<noteq> None)"

definition invNumbers :: "GenState \<Rightarrow> bool" where
  "invNumbers s \<longleftrightarrow>
     0 < clueCounter s \<and>
     (\<forall>pos n. numberLocations s pos = Some n \<longrightarrow>
        0 < n \<and> n < clueCounter s \<and>
        (\<exists>cell. newGrid s pos = Some cell \<and> clueNumber cell = Some n)) \<and>
     (\<forall>pos cell n. newGrid s pos = Some cell \<and> clueNumber cell = Some n \<longrightarrow>
        numberLocations s pos = Some n) \<and>
     (\<forall>pos pos' n. numberLocations s pos = Some n \<and> numberLocations s pos' = Some n \<longrightarrow>
        pos = pos')"

definition cluesFrom :: "GenState \<Rightarrow> direction \<Rightarrow> Clue list \<Rightarrow> bool" where
  "cluesFrom s d cs \<longleftrightarrow>
     (\<forall>nc \<in> set cs. \<exists>p \<in> set (placedWords s).
        direction p = d \<and> numberLocations s (row p, col p) = Some (fst nc) \<and> clue p = snd nc)"

definition invClues :: "GenState \<Rightarrow> bool" where
  "invClues s \<longleftrightarrow> cluesFrom s Across (acrossClues s) \<and> cluesFrom s Down (downClues s)"

definition wordsHaveClues :: "GenState \<Rightarrow> bool" where
  "wordsHaveClues s \<longleftrightarrow>
     (\<forall>p \<in> set (placedWords s). \<forall>n. numberLocations s (row p, col p) = Some n \<longrightarrow>
        (n, clue p) \<in> set (if direction p = Across then acrossClues s else downClues s))"

definition genInv :: "GenState \<Rightarrow> bool" where
  "genInv s \<longleftrightarrow> invPlaced s \<and> invNumbers s \<and> invClues s \<and> wordsHaveClues s"

definition compatible :: "Grid \<Rightarrow> jsstring \<Rightarrow> int \<Rightarrow> int \<Rightarrow> direction \<Rightarrow> bool" where
  "compatible g w r0 c0 d \<longleftrightarrow>
     (\<forall>i < length w.
        rowDefined (fst (letterPos d r0 c0 i)) \<and>
        (\<forall>cell. g (letterPos d r0 c0 i) = Some cell \<longrightarrow> letter cell = w ! i))"

definition bestOk :: "Grid \<Rightarrow> jsstring \<Rightarrow> BestFit \<Rightarrow> bool" where
  "bestOk g w acc \<longleftrightarrow>
     (\<forall>r c d. fst acc = Some (r, c, d) \<longrightarrow> canPlaceWord g w r c d = Inr True)"

text \<open>
  For words of at most \<open>GRID_SIZE\<close> letters one more thing holds: every letter of every
  placed word lies on a cell of the grid.
\<close>

definition wordInside :: "PlacedWord \<Rightarrow> bool" where
  "wordInside p \<longleftrightarrow>
     (\<forall>i < length (word p). insideGrid (letterPos (direction p) (row p) (col p) i))"

definition invInside :: "GenState \<Rightarrow> bool" where
  "invInside s \<longleftrightarrow> (\<forall>p \<in> set (placedWords s). wordInside p)"

definition bestInside :: "jsstring \<Rightarrow> BestFit \<Rightarrow> bool" where
  "bestInside w acc \<longleftrightarrow>
     (\<forall>r c d. fst acc = Some (r, c, d) \<longrightarrow> (\<forall>i < length w. insideGrid (letterPos d r c i)))"

section \<open>Example runs of the construction\<close>

text \<open>
  Three inputs and what the construction makes of them.  \<open>scenarioA\<close>: \<open>gato\<close> and
  \<open>Casa\<close>, which cross at the letter \<open>A\<close>.  \<open>sharedStart\<close>: \<open>cal\<close> and \<open>casa\<close>; \<open>CASA\<close>
  goes across and \<open>CAL\<close> down from the same cell.  \<open>scenarioB\<close>: an empty word and \<open>SOL\<close>,
  of which only one entry is left.
\<close>

definition gato :: WordEntry where
  "gato = \<lparr> word = js ''GATO'', clue = js ''Animal domestico'' \<rparr>"

definition casa :: WordEntry where
  "casa = \<lparr> word = js ''CASA'', clue = js ''Onde se mora'' \<rparr>"

definition scenarioA :: "WordEntry list" where
  "scenarioA =
     [\<lparr> word = js ''gato'', clue = js '' Animal domestico'' \<rparr>,
      \<lparr> word = js ''Casa'', clue = js ''Onde se mora '' \<rparr>]"

definition gatoState :: GenState where
  "gatoState =
     \<lparr> newGrid = gatoGrid,
       acrossClues = [(1, js ''Animal domestico'')],
       downClues = [],
       clueCounter = 2,
       placedWords = [placedAt gato 15 13 Across],
       numberLocations = [(15, 13) \<mapsto> 1] \<rparr>"

definition casaGrid :: Grid where
  "casaGrid = gatoGrid
     ((14, 14) := Some \<lparr> letter = 67, clueNumber = Some 2, across = None, down = Some 2 \<rparr>,
      (15, 14) := Some \<lparr> letter = 65, clueNumber = None, across = Some 1, down = Some 2 \<rparr>,
      (16, 14) := Some \<lparr> letter = 83, clueNumber = None, across = None, down = Some 2 \<rparr>,
      (17, 14) := Some \<lparr> letter = 65, clueNumber = None, across = None, down = Some 2 \<rparr>)"

definition casaState :: GenState where
  "casaState =
     \<lparr> newGrid = casaGrid,
       acrossClues = [(1, js ''Animal domestico'')],
       downClues = [(2, js ''Onde se mora'')],
       clueCounter = 3,
       placedWords = [placedAt gato 15 13 Across, placedAt casa 14 14 Down],
       numberLocations = [(15, 13) \<mapsto> 1, (14, 14) \<mapsto> 2] \<rparr>"

definition scenarioABuilt :: Construction where
  "scenarioABuilt =
     \<lparr> puzzle = \<lparr> grid = casaGrid,
                    cluesAcross = [(1, js ''Animal domestico'')],
                    cluesDown = [(2, js ''Onde se mora'')] \<rparr>,
       placed = [placedAt gato 15 13 Across, placedAt casa 14 14 Down],
       unplaced = [],
       passCount = 1 \<rparr>"

definition cal :: WordEntry where
  "cal = \<lparr> word = js ''CAL'', clue = js ''Oxido de calcio'' \<rparr>"

definition sharedStart :: "WordEntry list" where
  "sharedStart = [\<lparr> word = js ''cal'', clue = js ''Oxido de calcio'' \<rparr>,
                  \<lparr> word = js ''casa'', clue = js ''Onde se mora'' \<rparr>]"

definition casaAcrossGrid :: Grid where
  "casaAcrossGrid = emptyGrid
     ((15, 13) := Some \<lparr> letter = 67, clueNumber = Some 1, across = Some 1, down = None \<rparr>,
      (15, 14) := Some \<lparr> letter = 65, clueNumber = None, across = Some 1, down = None \<rparr>,
      (15, 15) := Some \<lparr> letter = 83, clueNumber = None, across = Some 1, down = None \<rparr>,
      (15, 16) := Some \<lparr> letter = 65, clueNumber = None, across = Some 1, down = None \<rparr>)"

definition casaAcrossState :: GenState where
  "casaAcrossState =
     \<lparr> newGrid = casaAcrossGrid,
       acrossClues = [(1, js ''Onde se mora'')],
       downClues = [],
       clueCounter = 2,
       placedWords = [placedAt casa 15 13 Across],
       numberLocations = [(15, 13) \<mapsto> 1] \<rparr>"

definition calGrid :: Grid where
  "calGrid = casaAcrossGrid
     ((15, 13) := Some \<lparr> letter = 67, clueNumber = Some 1, across = Some 1, down = Some 1 \<rparr>,
      (16, 13) := Some \<lparr> letter = 65, clueNumber = None, across = None, down = Some 1 \<rparr>,
      (17, 13) := Some \<lparr> letter = 76, clueNumber = None, across = None, down = Some 1 \<rparr>)"

definition calState :: GenState where
  "calState =
     \<lparr> newGrid = calGrid,
       acrossClues = [(1, js ''Onde se mora'')],
       downClues = [(1, js ''Oxido de calcio'')],
       clueCounter = 2,
       placedWords = [placedAt casa 15 13 Across, placedAt cal 15 13 Down],
       numberLocations = [(15, 13) \<mapsto> 1] \<rparr>"

definition sharedStartBuilt :: Construction where
  "sharedStartBuilt =
     \<lparr> puzzle = \<lparr> grid = calGrid,
                    cluesAcross = [(1, js ''Onde se mora'')],
                    cluesDown = [(1, js ''Oxido de calcio'')] \<rparr>,
       placed = [placedAt casa 15 13 Across, placedAt cal 15 13 Down],
       unplaced = [],
       passCount = 1 \<rparr>"

definition scenarioB :: "WordEntry list" where
  "scenarioB = [\<lparr> word = [], clue = js ''x'' \<rparr>, \<lparr> word = js ''SOL'', clue = js ''Estrela'' \<rparr>]"

definition exampleApp :: AppState where
  "exampleApp =
     \<lparr> crosswordFormData =
         \<lparr> topic = js ''Astros'', curricularComponent = js ''Ciencias'', schoolYear = js ''5'',
           wordEntries = scenarioB \<rparr>,
       savedCrosswords = [],
       activeCrosswordId = None,
       generatedPuzzle = None,
       generationError = NoMessage,
       isLoading = False \<rparr>"

text \<open>
  A fourth input: \<open>KG\<close> and a word of 46 letters, which have no letter in common.  The
  long word is placed first, from column \<open>(30 - 46) div 2 = - 8\<close>; \<open>acrossWordGrid\<close> is
  the table that holds one across word and nothing else.
\<close>

definition longWord :: WordEntry where
  "longWord = \<lparr> word = js ''PNEUMOULTRAMICROSCOPICOSSILICOVULCANOCONIOTICO'',
                 clue = js ''Doente dos pulmoes'' \<rparr>"

definition kg :: WordEntry where
  "kg = \<lparr> word = js ''KG'', clue = js ''Quilograma'' \<rparr>"

definition longInput :: "WordEntry list" where
  "longInput = [kg, longWord]"

definition acrossWordGrid :: "jsstring \<Rightarrow> int \<Rightarrow> int \<Rightarrow> nat \<Rightarrow> Grid" where
  "acrossWordGrid w r0 c0 n =
     (\<lambda>pos. if fst pos = r0 \<and> c0 \<le> snd pos \<and> snd pos < c0 + int (length w)
            then Some \<lparr> letter = w ! nat (snd pos - c0),
                        clueNumber = (if snd pos = c0 then Some n else None),
                        across = Some n, down = None \<rparr>
            else None)"

definition longState :: GenState where
  "longState =
     \<lparr> newGrid = acrossWordGrid (word longWord) 15 (- 8) 1,
       acrossClues = [(1, js ''Doente dos pulmoes'')],
       downClues = [],
       clueCounter = 2,
       placedWords = [placedAt longWord 15 (- 8) Across],
       numberLocations = [(15, - 8) \<mapsto> 1] \<rparr>"

definition longBuilt :: Construction where
  "longBuilt =
     \<lparr> puzzle = \<lparr> grid = acrossWordGrid (word longWord) 15 (- 8) 1,
                    cluesAcross = [(1, js ''Doente dos pulmoes'')],
                    cluesDown = [] \<rparr>,
       placed = [placedAt longWord 15 (- 8) Across],
       unplaced = [kg],
       passCount = 1 \<rparr>"

section \<open>Properties of the solver\<close>

lemma fold_revealRow_lookup:
  "fold (\<lambda>(c, cell) m. case cell of None \<Rightarrow> m | Some cl \<Rightarrow> m((r, int c) \<mapsto> [letter cl]))
          (enumerate n cells) m (r', c') =
     (if r' = r \<and> int n \<le> c' \<and> c' < int n + int (length cells) \<and> cells ! (nat c' - n) \<noteq> None
      then Some [letter (the (cells ! (nat c' - n)))] else m (r', c'))"
proof (induction cells arbitrary: n m r' c')
  case Nil
  then show ?case by auto
next
  case (Cons a cells)
  have *: "nat c' - n = Suc (nat c' - Suc n)" if "int n < c'"
    using that by linarith
  consider "c' < int n" | "c' = int n" | "int n < c'" by linarith
  then show ?case
  proof cases
    case 1 then show ?thesis by (simp add: Cons.IH split: option.splits)
  next
    case 2 then show ?thesis by (simp add: Cons.IH split: option.splits)
  next
    case 3 then show ?thesis by (auto simp: Cons.IH * split: option.splits)
  qed
qed

lemma revealRow_lookup:
  "revealRow r cells m (r', c') =
     (case (if r' = r then rowLookup cells c' else None) of
        Some cl \<Rightarrow> Some [letter cl] | None \<Rightarrow> m (r', c'))"
  unfolding revealRow_def rowLookup_def
  by (simp add: fold_revealRow_lookup split: option.splits)

lemma fold_revealSolution_lookup:
  "fold (\<lambda>(r, cells) m. revealRow (int r) cells m) (enumerate n g) m (r', c') =
     (case (if int n \<le> r' \<and> r' < int n + int (length g)
            then rowLookup (g ! (nat r' - n)) c' else None) of
        Some cl \<Rightarrow> Some [letter cl] | None \<Rightarrow> m (r', c'))"
proof (induction g arbitrary: n m r' c')
  case Nil
  then show ?case by auto
next
  case (Cons a g)
  have *: "nat r' - n = Suc (nat r' - Suc n)" if "int n < r'"
    using that by linarith
  consider "r' < int n" | "r' = int n" | "int n < r'" by linarith
  then show ?case
  proof cases
    case 1 then show ?thesis by (simp add: Cons.IH revealRow_lookup split: option.splits)
  next
    case 2 then show ?thesis by (simp add: Cons.IH revealRow_lookup split: option.splits)
  next
    case 3 then show ?thesis by (auto simp: Cons.IH revealRow_lookup * split: option.splits)
  qed
qed

text \<open>The revealed solution holds, under each key, the letter of the grid cell there.\<close>

lemma revealSolution_lookup:
  "revealSolution g (r, c) = map_option (\<lambda>cl. [letter cl]) (gridLookup (Some g) r c)"
  unfolding revealSolution_def gridLookup_def
  by (simp add: fold_revealSolution_lookup split: option.splits)

lemma gridLookup_exampleRow:
  "gridLookup (Some exampleRow) 0 0 = None"
  "gridLookup (Some exampleRow) 0 1 =
     Some \<lparr> letter = 71, clueNumber = Some 1, across = Some 1, down = None \<rparr>"
  by (simp_all add: gridLookup_def rowLookup_def exampleRow_def)

text \<open>
  Called for a null or non-existent cell, \<open>handleCellClick\<close> would clear the selection;
  the rendered grid never makes that call.
\<close>

lemma handleCellClick_null:
  "gridLookup pg r c = None \<Longrightarrow> handleCellClick pg s r c = s\<lparr>selectedCell := None\<rparr>"
  by (simp add: handleCellClick_def)



text \<open>
  C8: while \<open>isChecking\<close> is true, typing into any cell is rejected: the state, and so
  \<open>userInput\<close>, stays as it is.  The lock is the \<open>disabled={isChecking}\<close> attribute of the
  rendered input; \<open>handleInputChange\<close> itself has no test of \<open>isChecking\<close>.
\<close>

theorem C8_input_locked_while_checking:
  "isChecking s \<Longrightarrow>
     cellInputChange rt pg s v r c = s \<and>
     userInput (cellInputChange rt pg s v r c) = userInput s"
  by (simp add: cellInputChange_def split: option.splits)

theorem C8_input_locked_witness:
  "isChecking exampleSolverState \<and>
   gridLookup (Some exampleRow) 0 1 \<noteq> None \<and>
   userInput (cellInputChange latin1Runtime (Some exampleRow) exampleSolverState [120] 0 1)
     = [(0, 1) \<mapsto> [71]]"
  using C8_input_locked_while_checking [of exampleSolverState latin1Runtime "Some exampleRow" "[120]" 0 1]
  by (simp add: gridLookup_exampleRow exampleSolverState_def)

text \<open>
  C9: for every solver state (and every grid), Reveal followed by Reset gives exactly the
  initial solver state: \<open>userInput\<close> empty, no selected cell, \<open>isChecking\<close> false.
\<close>

theorem C9_reveal_then_reset_initial:
  "handleReset (handleReveal pg s) = initialSolverState"
  by (cases s) (simp add: handleReset_def handleReveal_def initialSolverState_def split: option.splits)

text \<open>
  C10: Reveal leaves \<open>selectedCell\<close> as it was, whereas Reset clears it.  With a grid
  loaded, Reveal replaces \<open>userInput\<close> by the solution, which holds under each key the
  letter of the grid cell there and nothing else, and sets \<open>isChecking\<close> to false.
\<close>

theorem C10_reveal_keeps_selection:
  "selectedCell (handleReveal pg s) = selectedCell s \<and>
   selectedCell (handleReset s) = None \<and>
   (\<forall>g. pg = Some g \<longrightarrow>
      userInput (handleReveal pg s) = revealSolution g \<and>
      (\<forall>r c. revealSolution g (r, c) = map_option (\<lambda>cl. [letter cl]) (gridLookup pg r c)) \<and>
      \<not> isChecking (handleReveal pg s))"
  by (simp add: handleReveal_def handleReset_def revealSolution_lookup split: option.splits)

theorem C10_reveal_keeps_selection_witness:
  "selectedCell (handleReveal (Some exampleRow) exampleSolverState) = Some (0, 1, Across) \<and>
   userInput (handleReveal (Some exampleRow) exampleSolverState) (0, 1) = Some [71] \<and>
   userInput (handleReveal (Some exampleRow) exampleSolverState) (0, 0) = None \<and>
   \<not> isChecking (handleReveal (Some exampleRow) exampleSolverState)"
  using C10_reveal_keeps_selection [of "Some exampleRow" exampleSolverState]
  by (simp add: gridLookup_exampleRow exampleSolverState_def)

section \<open>Properties of the word normalisation\<close>

lemma mapSet_keys:
  "map fst (mapSet k v m) = (if k \<in> fst ` set m then map fst m else map fst m @ [k])"
  by (induction m) auto

lemma mapSet_distinct: "distinct (map fst m) \<Longrightarrow> distinct (map fst (mapSet k v m))"
  by (simp add: mapSet_keys)

lemma mapSet_map_of: "map_of (mapSet k v m) = (map_of m)(k \<mapsto> v)"
  by (induction m) auto

lemma mapSet_subset: "set (mapSet k v m) \<subseteq> insert (k, v) (set m)"
  by (induction m) auto

lemma fold_mapSet_distinct:
  "distinct (map fst m) \<Longrightarrow>
     distinct (map fst (fold (\<lambda>item m. mapSet (word item) item m) ws m))"
  by (induction ws arbitrary: m) (auto simp: mapSet_distinct)

lemma fold_mapSet_keyed:
  "\<forall>p \<in> set m. fst p = word (snd p) \<Longrightarrow>
   \<forall>p \<in> set (fold (\<lambda>item m. mapSet (word item) item m) ws m). fst p = word (snd p)"
proof (induction ws arbitrary: m)
  case Nil
  then show ?case by simp
next
  case (Cons a ws)
  have "\<forall>p \<in> set (mapSet (word a) a m). fst p = word (snd p)"
    using Cons.prems mapSet_subset [of "word a" a m] by auto
  then show ?case
    using Cons.IH by simp
qed

text \<open>The value found under a key is the last item of the input that has this key.\<close>

lemma fold_mapSet_map_of:
  "map_of (fold (\<lambda>item m. mapSet (word item) item m) ws m) w =
     (if \<exists>e \<in> set ws. word e = w
      then Some (last (filter (\<lambda>e. word e = w) ws)) else map_of m w)"
proof (induction ws arbitrary: m)
  case Nil
  then show ?case by simp
next
  case (Cons a ws)
  show ?case
    by (auto simp: Cons.IH mapSet_map_of filter_empty_conv)
qed

lemma dedupeWords_words:
  "map word (dedupeWords ws) = map fst (fold (\<lambda>item m. mapSet (word item) item m) ws [])"
  using fold_mapSet_keyed [of "[]" ws] by (simp add: dedupeWords_def)

lemma dedupeWords_distinct: "distinct (map word (dedupeWords ws))"
  by (simp add: dedupeWords_words fold_mapSet_distinct)

lemma dedupeWords_mem:
  "x \<in> set (dedupeWords ws) \<longleftrightarrow>
     x \<in> set ws \<and> x = last (filter (\<lambda>e. word e = word x) ws)"
proof
  let ?R = "fold (\<lambda>item m. mapSet (word item) item m) ws []"
  assume "x \<in> set (dedupeWords ws)"
  then obtain k where kx: "(k, x) \<in> set ?R"
    by (auto simp: dedupeWords_def)
  then have k: "k = word x"
    using fold_mapSet_keyed [of "[]" ws] by fastforce
  have "distinct (map fst ?R)" by (simp add: fold_mapSet_distinct)
  then have "map_of ?R (word x) = Some x"
    using kx k by simp
  then have ex: "\<exists>e \<in> set ws. word e = word x"
    and lx: "x = last (filter (\<lambda>e. word e = word x) ws)"
    by (auto simp: fold_mapSet_map_of split: if_splits)
  from ex have "filter (\<lambda>e. word e = word x) ws \<noteq> []"
    by (simp add: filter_empty_conv)
  then have "last (filter (\<lambda>e. word e = word x) ws) \<in> set (filter (\<lambda>e. word e = word x) ws)"
    by (rule last_in_set)
  with lx show "x \<in> set ws \<and> x = last (filter (\<lambda>e. word e = word x) ws)"
    by auto
next
  let ?R = "fold (\<lambda>item m. mapSet (word item) item m) ws []"
  assume a: "x \<in> set ws \<and> x = last (filter (\<lambda>e. word e = word x) ws)"
  then have "map_of ?R (word x) = Some x"
    by (auto simp: fold_mapSet_map_of)
  then have "(word x, x) \<in> set ?R"
    by (rule map_of_SomeD)
  then show "x \<in> set (dedupeWords ws)"
    by (force simp: dedupeWords_def)
qed

lemmas normalize_example_simps =
  js_def normalizeEntries_def normalizeEntry_def keepEntry_def normalizeString_def
  latin1Runtime_def latin1Decompose_def latin1Upper_def latin1Marks_def isCombiningMark_def
  trim_def isWhiteSpace_def dedupeWords_def

text \<open>
  C1, as stated, fails: the word that starts with a tab is not trimmed and survives with
  the tab, the word \<open>" SOL "\<close> survives with its two spaces, the word with a hyphen
  survives, and so does the word of 21 letters.
\<close>

theorem C1_normalization_counterexample:
  "map word (dedupeWords (normalizeEntries latin1Runtime exampleUnfiltered)) =
     [9 # js ''LUA'', js '' SOL '', js ''GUARDA-CHUVA'', js ''INCONSTITUCIONALMENTE'']"
  by (simp add: exampleUnfiltered_def normalize_example_simps)

text \<open>
  C1, amended: for every raw input list, each entry's word is decomposed (NFD), loses its
  combining marks U+0300 to U+036F and is uppercased, without being trimmed, and its clue
  is trimmed; an entry is dropped if, after that, the word is empty or has length 1 or
  the clue is empty; an entry survives if, after that, the word has length 2 to 15 and
  contains no space and no hyphen and the clue is not empty; every survivor is a
  normalised entry of the input; among the surviving entries with the same normalised
  word, only the last in input order is kept, so that the kept words are distinct.
\<close>

theorem C1_normalization_as_coded:
  "(\<forall>e \<in> set entries.
      word (normalizeEntry rt e) =
        (if word e = [] then []
         else toUpperCase rt (filter (\<lambda>c. \<not> (768 \<le> c \<and> c \<le> 879)) (normalizeNFD rt (word e)))) \<and>
      clue (normalizeEntry rt e) = trim (clue e) \<and>
      (length (word (normalizeEntry rt e)) \<le> 1 \<or> clue (normalizeEntry rt e) = [] \<longrightarrow>
         normalizeEntry rt e \<notin> set (normalizeEntries rt entries)) \<and>
      (2 \<le> length (word (normalizeEntry rt e)) \<and> length (word (normalizeEntry rt e)) \<le> 15 \<and>
       32 \<notin> set (word (normalizeEntry rt e)) \<and> 45 \<notin> set (word (normalizeEntry rt e)) \<and>
       clue (normalizeEntry rt e) \<noteq> [] \<longrightarrow>
         normalizeEntry rt e \<in> set (normalizeEntries rt entries))) \<and>
   set (normalizeEntries rt entries) \<subseteq> normalizeEntry rt ` set entries \<and>
   (\<forall>x. x \<in> set (dedupeWords (normalizeEntries rt entries)) \<longleftrightarrow>
      x \<in> set (normalizeEntries rt entries) \<and>
      x = last (filter (\<lambda>e. word e = word x) (normalizeEntries rt entries))) \<and>
   distinct (map word (dedupeWords (normalizeEntries rt entries)))"
proof -
  have "\<forall>e \<in> set entries.
      word (normalizeEntry rt e) =
        (if word e = [] then []
         else toUpperCase rt (filter (\<lambda>c. \<not> (768 \<le> c \<and> c \<le> 879)) (normalizeNFD rt (word e)))) \<and>
      clue (normalizeEntry rt e) = trim (clue e) \<and>
      (length (word (normalizeEntry rt e)) \<le> 1 \<or> clue (normalizeEntry rt e) = [] \<longrightarrow>
         normalizeEntry rt e \<notin> set (normalizeEntries rt entries)) \<and>
      (2 \<le> length (word (normalizeEntry rt e)) \<and> length (word (normalizeEntry rt e)) \<le> 15 \<and>
       32 \<notin> set (word (normalizeEntry rt e)) \<and> 45 \<notin> set (word (normalizeEntry rt e)) \<and>
       clue (normalizeEntry rt e) \<noteq> [] \<longrightarrow>
         normalizeEntry rt e \<in> set (normalizeEntries rt entries))"
    by (auto simp: normalizeEntries_def normalizeEntry_def keepEntry_def normalizeString_def
        isCombiningMark_def)
  moreover have "set (normalizeEntries rt entries) \<subseteq> normalizeEntry rt ` set entries"
    by (auto simp: normalizeEntries_def)
  ultimately show ?thesis
    using dedupeWords_mem [of _ "normalizeEntries rt entries"]
      dedupeWords_distinct [of "normalizeEntries rt entries"]
    by blast
qed

theorem C1_normalization_witness:
  "normalizeEntries latin1Runtime exampleDuplicates =
     [\<lparr> word = js ''AGUA'', clue = js ''Liquido'' \<rparr>, \<lparr> word = js ''AGUA'', clue = js ''H2O'' \<rparr>] \<and>
   \<lparr> word = js ''AGUA'', clue = js ''H2O'' \<rparr>
     \<in> set (dedupeWords (normalizeEntries latin1Runtime exampleDuplicates)) \<and>
   \<lparr> word = js ''AGUA'', clue = js ''Liquido'' \<rparr>
     \<notin> set (dedupeWords (normalizeEntries latin1Runtime exampleDuplicates))"
proof -
  have n: "normalizeEntries latin1Runtime exampleDuplicates =
     [\<lparr> word = js ''AGUA'', clue = js ''Liquido'' \<rparr>, \<lparr> word = js ''AGUA'', clue = js ''H2O'' \<rparr>]"
    by (simp add: exampleDuplicates_def normalize_example_simps)
  show ?thesis
    using C1_normalization_as_coded [of exampleDuplicates latin1Runtime]
    unfolding n by (simp add: js_def)
qed

section \<open>Properties of the feasibility test\<close>

lemma bool_case_if: "(case b of True \<Rightarrow> A | False \<Rightarrow> B) = (if b then A else B)"
  by (cases b) simp_all

text \<open>For a word that has letters, to fit inside is to have every letter on a grid cell.\<close>

lemma fitsInside_cells:
  assumes "w \<noteq> []"
  shows "fitsInside w r0 c0 d \<longleftrightarrow> (\<forall>i < length w. insideGrid (letterPos d r0 c0 i))"
proof
  assume "fitsInside w r0 c0 d"
  then show "\<forall>i < length w. insideGrid (letterPos d r0 c0 i)"
    by (cases d) (auto simp: fitsInside_def insideGrid_def letterPos_def)
next
  assume cells: "\<forall>i < length w. insideGrid (letterPos d r0 c0 i)"
  from assms have len: "0 < length w" by simp
  from assms have last: "length w - 1 < length w"
    and eq: "int (length w - 1) = int (length w) - 1"
    by (cases w, simp_all)+
  from cells len have "insideGrid (letterPos d r0 c0 0)" by blast
  moreover from cells last have "insideGrid (letterPos d r0 c0 (length w - 1))" by blast
  ultimately show "fitsInside w r0 c0 d"
    by (cases d) (auto simp: fitsInside_def insideGrid_def letterPos_def eq)
qed

lemma checkLetters_step:
  assumes "insideGrid (letterPos d r0 c0 i)"
  shows "checkLetters g d r0 c0 i (x # xs) =
           (if letterFeasible g d (letterPos d r0 c0 i) x
            then checkLetters g d r0 c0 (Suc i) xs else Inr False)"
  using assms
  by (cases d)
     (auto simp: letterPos_def insideGrid_def letterFeasible_def sideNeighbours_def
        emptyOrOutside_def truthyCell_def rowDefined_def GRID_SIZE_def bool_case_if
        split: option.splits)

lemma checkLetters_spec:
  assumes "\<forall>k < length xs. insideGrid (letterPos d r0 c0 (i + k))"
  shows "checkLetters g d r0 c0 i xs =
           Inr (\<forall>k < length xs. letterFeasible g d (letterPos d r0 c0 (i + k)) (xs ! k))"
  using assms
proof (induction xs arbitrary: i)
  case Nil
  then show ?case by simp
next
  case (Cons x xs)
  have here: "insideGrid (letterPos d r0 c0 i)"
    using Cons.prems by force
  have rest: "\<forall>k < length xs. insideGrid (letterPos d r0 c0 (Suc i + k))"
    using Cons.prems by force
  have split: "(\<forall>k < length (x # xs). P k) \<longleftrightarrow> P 0 \<and> (\<forall>k < length xs. P (Suc k))" for P
    by (auto simp: less_Suc_eq_0_disj)
  show ?case
    unfolding split checkLetters_step [OF here] Cons.IH [OF rest]
    by simp
qed

lemmas grid_example_simps =
  canPlaceWord_def js_def GRID_SIZE_def truthyCell_def rowDefined_def emptyGrid_def
  letterPos_def gatoGrid_def

text \<open>
  C2, as stated, fails: on the empty grid \<open>canPlaceWord("AB", 0, 30, 'down')\<close> returns
  true, although column 30 is outside the grid of 30 columns (the test of the bounds
  looks at the rows only, and \<open>newGrid[r][30]\<close> is \<open>undefined\<close>, which counts as empty).
\<close>

theorem C2_canPlaceWord_counterexample:
  "canPlaceWord emptyGrid (js ''AB'') 0 30 Down = Inr True \<and>
   \<not> canPlaceSpec emptyGrid (js ''AB'') 0 30 Down"
  by (simp add: grid_example_simps canPlaceSpec_def fitsInside_def)

text \<open>
  C2, amended: for every grid, word and position whose coordinate across the direction
  is below \<open>GRID_SIZE\<close> (the row for an across word, the column for a down word),
  \<open>canPlaceWord\<close> throws nothing and returns true if and only if the word fits entirely
  inside the grid, the cell before its start and the cell after its end are empty or out
  of bounds, and at every position \<open>i\<close> the cell holds the letter \<open>word[i]\<close> or is empty
  with both neighbours across the direction empty or out of bounds.  The function takes
  the grid and returns only the truth value: it has no way to change the grid.
\<close>

theorem C2_canPlaceWord_iff:
  assumes "(d = Across \<longrightarrow> r0 < GRID_SIZE) \<and> (d = Down \<longrightarrow> c0 < GRID_SIZE)"
  shows "canPlaceWord g w r0 c0 d = Inr (canPlaceSpec g w r0 c0 d)"
proof (cases "fitsInside w r0 c0 d")
  case False
  then show ?thesis
    using assms
    by (cases d) (auto simp: canPlaceWord_def canPlaceSpec_def fitsInside_def)
next
  case True
  define L where "L \<longleftrightarrow> (\<forall>i < length w. letterFeasible g d (letterPos d r0 c0 i) (w ! i))"
  from True have cells: "\<forall>k < length w. insideGrid (letterPos d r0 c0 (0 + k))"
    by (cases d) (auto simp: fitsInside_def insideGrid_def letterPos_def)
  have cl: "checkLetters g d r0 c0 0 w = Inr L"
    using checkLetters_spec [OF cells, of g] by (simp add: L_def)
  have spec: "canPlaceSpec g w r0 c0 d \<longleftrightarrow>
      emptyOrOutside g (if d = Across then (r0, c0 - 1) else (r0 - 1, c0)) \<and>
      emptyOrOutside g (letterPos d r0 c0 (length w)) \<and> L"
    using True by (simp add: canPlaceSpec_def L_def)
  show ?thesis
  proof (cases d)
    case Across
    with True cl show ?thesis
      unfolding spec
      by (auto simp: canPlaceWord_def fitsInside_def truthyCell_def rowDefined_def
          emptyOrOutside_def insideGrid_def letterPos_def GRID_SIZE_def bool_case_if)
  next
    case Down
    with True cl show ?thesis
      unfolding spec
      by (auto simp: canPlaceWord_def fitsInside_def truthyCell_def rowDefined_def
          emptyOrOutside_def insideGrid_def letterPos_def GRID_SIZE_def bool_case_if)
  qed
qed

theorem C2_canPlaceWord_witness:
  "canPlaceWord gatoGrid (js ''CASA'') 14 14 Down = Inr True \<and>
   canPlaceSpec gatoGrid (js ''CASA'') 14 14 Down \<and>
   canPlaceWord gatoGrid (js ''CASA'') 14 13 Down = Inr False \<and>
   \<not> canPlaceSpec gatoGrid (js ''CASA'') 14 13 Down"
proof -
  have t: "canPlaceWord gatoGrid (js ''CASA'') 14 14 Down = Inr True"
    and f: "canPlaceWord gatoGrid (js ''CASA'') 14 13 Down = Inr False"
    by (simp_all add: grid_example_simps)
  show ?thesis
    using C2_canPlaceWord_iff [of Down 14 14 gatoGrid "js ''CASA''"]
      C2_canPlaceWord_iff [of Down 14 13 gatoGrid "js ''CASA''"]
    unfolding t f by (simp add: GRID_SIZE_def)
qed

section \<open>The construction keeps its invariants\<close>

lemma letterPos_inj [simp]: "letterPos d r0 c0 i = letterPos d r0 c0 j \<longleftrightarrow> i = j"
  by (simp add: letterPos_def)

lemma letterPos_0 [simp]: "letterPos d r0 c0 0 = (r0, c0)"
  by (simp add: letterPos_def)

lemma stampCell_letter:
  "letter (stampCell d n i x old) = (case old of None \<Rightarrow> x | Some cell \<Rightarrow> letter cell)"
  by (simp add: stampCell_def Let_def split: option.splits)

lemma stampCell_clueNumber:
  "clueNumber (stampCell d n i x old) =
     (if i = 0 then Some n else (case old of None \<Rightarrow> None | Some cell \<Rightarrow> clueNumber cell))"
  by (simp add: stampCell_def Let_def split: option.splits)

lemma writeLetters_other:
  "writeLetters g d n r0 c0 i xs = Inr g' \<Longrightarrow>
   \<forall>k < length xs. pos \<noteq> letterPos d r0 c0 (i + k) \<Longrightarrow> g' pos = g pos"
proof (induction xs arbitrary: g i)
  case Nil
  then show ?case by simp
next
  case (Cons x xs)
  obtain r c where rc: "letterPos d r0 c0 i = (r, c)" by (cases "letterPos d r0 c0 i")
  from Cons.prems(1) rc have def: "rowDefined r"
    and tail: "writeLetters (g((r, c) := Some (stampCell d n i x (g (r, c))))) d n r0 c0 (Suc i) xs = Inr g'"
    by (auto split: if_splits)
  from Cons.prems(2) have here: "pos \<noteq> (r, c)" using rc by force
  from Cons.prems(2) have rest: "\<forall>k < length xs. pos \<noteq> letterPos d r0 c0 (Suc i + k)" by force
  show ?case
    using Cons.IH [OF tail rest] here by simp
qed

lemma writeLetters_at:
  "writeLetters g d n r0 c0 i xs = Inr g' \<Longrightarrow> k < length xs \<Longrightarrow>
   g' (letterPos d r0 c0 (i + k)) =
     Some (stampCell d n (i + k) (xs ! k) (g (letterPos d r0 c0 (i + k))))"
proof (induction xs arbitrary: g i k)
  case Nil
  then show ?case by simp
next
  case (Cons x xs)
  obtain r c where rc: "letterPos d r0 c0 i = (r, c)" by (cases "letterPos d r0 c0 i")
  let ?g1 = "g((r, c) := Some (stampCell d n i x (g (r, c))))"
  from Cons.prems(1) rc have tail: "writeLetters ?g1 d n r0 c0 (Suc i) xs = Inr g'"
    by (auto split: if_splits)
  show ?case
  proof (cases k)
    case 0
    have "\<forall>j < length xs. (r, c) \<noteq> letterPos d r0 c0 (Suc i + j)"
      using rc [symmetric] by simp
    from writeLetters_other [OF tail this] show ?thesis
      using 0 rc by simp
  next
    case (Suc k')
    then have k': "k' < length xs" using Cons.prems(2) by simp
    have ne: "letterPos d r0 c0 (Suc i + k') \<noteq> (r, c)"
      using rc [symmetric] by simp
    from Cons.IH [OF tail k'] show ?thesis
      using Suc ne by simp
  qed
qed

lemma writeLetters_rows:
  "writeLetters g d n r0 c0 i xs = Inr g' \<Longrightarrow> k < length xs \<Longrightarrow>
   rowDefined (fst (letterPos d r0 c0 (i + k)))"
proof (induction xs arbitrary: g i k)
  case Nil
  then show ?case by simp
next
  case (Cons x xs)
  obtain r c where rc: "letterPos d r0 c0 i = (r, c)" by (cases "letterPos d r0 c0 i")
  let ?g1 = "g((r, c) := Some (stampCell d n i x (g (r, c))))"
  from Cons.prems(1) rc have def: "rowDefined r" and tail: "writeLetters ?g1 d n r0 c0 (Suc i) xs = Inr g'"
    by (auto split: if_splits)
  show ?case
  proof (cases k)
    case 0
    then show ?thesis using def rc by simp
  next
    case (Suc k')
    then have k': "k' < length xs" using Cons.prems(2) by simp
    from Cons.IH [OF tail k'] show ?thesis using Suc by simp
  qed
qed

lemma writeLetters_succeeds:
  "\<forall>k < length xs. rowDefined (fst (letterPos d r0 c0 (i + k))) \<Longrightarrow>
   \<exists>g'. writeLetters g d n r0 c0 i xs = Inr g'"
proof (induction xs arbitrary: g i)
  case Nil
  then show ?case by simp
next
  case (Cons x xs)
  obtain r c where rc: "letterPos d r0 c0 i = (r, c)" by (cases "letterPos d r0 c0 i")
  from Cons.prems have def: "rowDefined r" using rc by force
  from Cons.prems have rest: "\<forall>k < length xs. rowDefined (fst (letterPos d r0 c0 (Suc i + k)))"
    by force
  show ?case
    using Cons.IH [OF rest] def rc by simp
qed

lemma invNumbers_counter: "invNumbers s \<Longrightarrow> 0 < clueCounter s"
  unfolding invNumbers_def by blast

lemma invNumbers_range:
  "invNumbers s \<Longrightarrow> numberLocations s pos = Some n \<Longrightarrow> 0 < n \<and> n < clueCounter s"
  unfolding invNumbers_def by blast

lemma invNumbers_cell:
  "invNumbers s \<Longrightarrow> numberLocations s pos = Some n \<Longrightarrow>
     \<exists>cell. newGrid s pos = Some cell \<and> clueNumber cell = Some n"
  unfolding invNumbers_def by blast

lemma invNumbers_located:
  "invNumbers s \<Longrightarrow> newGrid s pos = Some cell \<Longrightarrow> clueNumber cell = Some n \<Longrightarrow>
     numberLocations s pos = Some n"
  unfolding invNumbers_def by blast

lemma invNumbers_inj:
  "invNumbers s \<Longrightarrow> numberLocations s pos = Some n \<Longrightarrow> numberLocations s pos' = Some n \<Longrightarrow>
     pos = pos'"
  unfolding invNumbers_def by blast

lemma placeWordOnGrid_Inr:
  assumes "placeWordOnGrid s wordObj r0 c0 d = Inr s'"
  obtains n g' where
    "n = (case numberLocations s (r0, c0) of Some m \<Rightarrow> m | None \<Rightarrow> clueCounter s)"
    "writeLetters (newGrid s) d n r0 c0 0 (word wordObj) = Inr g'"
    "newGrid s' = g'"
    "numberLocations s' = (numberLocations s)((r0, c0) \<mapsto> n)"
    "clueCounter s' = (if numberLocations s (r0, c0) = None then clueCounter s + 1 else clueCounter s)"
    "acrossClues s' = (if d = Across then acrossClues s @ [(n, clue wordObj)] else acrossClues s)"
    "downClues s' = (if d = Across then downClues s else downClues s @ [(n, clue wordObj)])"
    "placedWords s' = placedWords s"
proof (cases "numberLocations s (r0, c0)")
  case None
  with assms show ?thesis
    by (intro that [of "clueCounter s" "newGrid s'"])
       (auto simp: placeWordOnGrid_def Let_def split: sum.splits if_splits)
next
  case (Some m)
  then have "(numberLocations s)((r0, c0) \<mapsto> m) = numberLocations s"
    by (simp add: map_upd_triv)
  with Some assms show ?thesis
    by (intro that [of m "newGrid s'"])
       (auto simp: placeWordOnGrid_def Let_def split: sum.splits if_splits)
qed

lemma placeWordOnGrid_succeeds:
  assumes "\<forall>i < length (word wordObj). rowDefined (fst (letterPos d r0 c0 i))"
  shows "\<exists>s'. placeWordOnGrid s wordObj r0 c0 d = Inr s'"
proof -
  have "\<exists>g'. writeLetters g d n r0 c0 0 (word wordObj) = Inr g'" for g n
    using writeLetters_succeeds [of "word wordObj" d r0 c0 0 g n] assms by simp
  then show ?thesis
    unfolding placeWordOnGrid_def Let_def
    by (auto split: option.splits sum.splits prod.splits) (metis sum.distinct(1))+
qed

lemma placedAt_sel [simp]:
  "word (placedAt wordObj r c d) = word wordObj"
  "clue (placedAt wordObj r c d) = clue wordObj"
  "row (placedAt wordObj r c d) = r"
  "col (placedAt wordObj r c d) = c"
  "direction (placedAt wordObj r c d) = d"
  by (simp_all add: placedAt_def)

lemma commit_genInv:
  assumes inv: "genInv s"
    and ne: "word wordObj \<noteq> []"
    and compat: "compatible (newGrid s) (word wordObj) r0 c0 d"
    and place: "placeWordOnGrid s wordObj r0 c0 d = Inr s'"
  shows "genInv (s'\<lparr>placedWords := placedWords s' @ [placedAt wordObj r0 c0 d]\<rparr>)"
proof -
  let ?w = "word wordObj"
  let ?g = "newGrid s"
  let ?s'' = "s'\<lparr>placedWords := placedWords s' @ [placedAt wordObj r0 c0 d]\<rparr>"
  from place obtain n g' where
    n: "n = (case numberLocations s (r0, c0) of Some m \<Rightarrow> m | None \<Rightarrow> clueCounter s)"
    and wl: "writeLetters ?g d n r0 c0 0 ?w = Inr g'"
    and g': "newGrid s' = g'"
    and nl: "numberLocations s' = (numberLocations s)((r0, c0) \<mapsto> n)"
    and cc: "clueCounter s' = (if numberLocations s (r0, c0) = None then clueCounter s + 1 else clueCounter s)"
    and ac: "acrossClues s' = (if d = Across then acrossClues s @ [(n, clue wordObj)] else acrossClues s)"
    and dc: "downClues s' = (if d = Across then downClues s else downClues s @ [(n, clue wordObj)])"
    and pw: "placedWords s' = placedWords s"
    by (rule placeWordOnGrid_Inr)
  from inv have ip: "invPlaced s" and inn: "invNumbers s" and ic: "invClues s"
    and wc: "wordsHaveClues s"
    by (simp_all add: genInv_def)
  have onPath: "g' (letterPos d r0 c0 k) = Some (stampCell d n k (?w ! k) (?g (letterPos d r0 c0 k)))"
    if "k < length ?w" for k
    using writeLetters_at [OF wl that] by simp
  have offPath: "g' pos = ?g pos" if "\<forall>k < length ?w. pos \<noteq> letterPos d r0 c0 k" for pos
    using writeLetters_other [OF wl] that by simp
  have keepLetter: "\<exists>cell'. g' pos = Some cell' \<and> letter cell' = letter cell"
    if "?g pos = Some cell" for pos cell
  proof (cases "\<exists>k < length ?w. pos = letterPos d r0 c0 k")
    case True
    then obtain k where "k < length ?w" "pos = letterPos d r0 c0 k" by blast
    then show ?thesis using onPath [of k] that by (simp add: stampCell_letter)
  next
    case False
    then show ?thesis using offPath [of pos] that by simp
  qed
  have newLetter: "\<exists>cell'. g' (letterPos d r0 c0 k) = Some cell' \<and> letter cell' = ?w ! k"
    if "k < length ?w" for k
    using onPath [OF that] compat that
    by (auto simp: compatible_def stampCell_letter split: option.splits)
  have startCell: "\<exists>cell'. g' (r0, c0) = Some cell' \<and> clueNumber cell' = Some n"
    using onPath [of 0] ne by (simp add: stampCell_clueNumber)
  have numberOrigin: "(pos = (r0, c0) \<and> m = n) \<or> (\<exists>cell. ?g pos = Some cell \<and> clueNumber cell = Some m)"
    if "g' pos = Some cell'" "clueNumber cell' = Some m" for pos cell' m
  proof (cases "\<exists>k < length ?w. pos = letterPos d r0 c0 k")
    case True
    then obtain k where k: "k < length ?w" "pos = letterPos d r0 c0 k" by blast
    show ?thesis
    proof (cases "k = 0")
      case True
      then show ?thesis using onPath [of k] k that by (auto simp: stampCell_clueNumber)
    next
      case False
      then show ?thesis using onPath [of k] k that
        by (auto simp: stampCell_clueNumber split: option.splits)
    qed
  next
    case False
    then show ?thesis using offPath [of pos] that by metis
  qed
  have keepNumber: "\<exists>cell'. g' pos = Some cell' \<and> clueNumber cell' = Some m"
    if "?g pos = Some cell" "clueNumber cell = Some m" "pos \<noteq> (r0, c0)" for pos cell m
  proof (cases "\<exists>k < length ?w. pos = letterPos d r0 c0 k")
    case True
    then obtain k where k: "k < length ?w" "pos = letterPos d r0 c0 k" by blast
    with that(3) have "k \<noteq> 0" by (cases k) auto
    then show ?thesis using onPath [of k] k that by (simp add: stampCell_clueNumber)
  next
    case False
    then show ?thesis using offPath [of pos] that by simp
  qed
  have oldNumber: "numberLocations s' pos = Some m" if "numberLocations s pos = Some m" for pos m
    using that n nl by (auto split: option.splits)
  have nRange: "0 < n \<and> n < clueCounter s'"
  proof (cases "numberLocations s (r0, c0)")
    case None
    then show ?thesis using n cc invNumbers_counter [OF inn] by simp
  next
    case (Some m)
    then show ?thesis using n cc invNumbers_range [OF inn Some] by simp
  qed
  have counterMono: "clueCounter s \<le> clueCounter s'"
    using cc by simp
  \<comment> \<open>the placed words\<close>
  have "invPlaced ?s''"
    unfolding invPlaced_def
  proof
    fix p assume "p \<in> set (placedWords ?s'')"
    then consider "p \<in> set (placedWords s)" | "p = placedAt wordObj r0 c0 d"
      using pw by auto
    then show "word p \<noteq> [] \<and> wordRowsOk p \<and> lettersOnGrid (newGrid ?s'') p \<and>
        numberLocations ?s'' (row p, col p) \<noteq> None"
    proof cases
      case 1
      with ip have old: "word p \<noteq> []" "wordRowsOk p" "lettersOnGrid ?g p"
        "numberLocations s (row p, col p) \<noteq> None"
        by (auto simp: invPlaced_def)
      have "lettersOnGrid g' p"
        unfolding lettersOnGrid_def
      proof (intro allI impI)
        fix i assume "i < length (word p)"
        with old(3) obtain cell where
          "?g (letterPos (direction p) (row p) (col p) i) = Some cell" "letter cell = word p ! i"
          by (auto simp: lettersOnGrid_def)
        with keepLetter show "\<exists>cell. g' (letterPos (direction p) (row p) (col p) i) = Some cell \<and>
            letter cell = word p ! i"
          by fastforce
      qed
      moreover have "numberLocations s' (row p, col p) \<noteq> None"
        using old(4) oldNumber by fastforce
      ultimately show ?thesis using old g' by simp
    next
      case 2
      have "lettersOnGrid g' p"
        using newLetter 2 by (simp add: lettersOnGrid_def)
      moreover have "wordRowsOk p"
        using compat 2 by (simp add: wordRowsOk_def compatible_def)
      ultimately show ?thesis using 2 ne g' nl by simp
    qed
  qed
  \<comment> \<open>the numbers\<close>
  moreover have "invNumbers ?s''"
  proof -
    have a: "0 < clueCounter ?s''" using invNumbers_counter [OF inn] counterMono by simp
    have b: "0 < m \<and> m < clueCounter ?s'' \<and>
        (\<exists>cell. newGrid ?s'' pos = Some cell \<and> clueNumber cell = Some m)"
      if "numberLocations ?s'' pos = Some m" for pos m
    proof (cases "pos = (r0, c0)")
      case True
      with that nl have "m = n" by simp
      then show ?thesis using nRange startCell True g' by simp
    next
      case False
      with that nl have old: "numberLocations s pos = Some m" by simp
      from invNumbers_cell [OF inn old] obtain cell where
        cell: "?g pos = Some cell" "clueNumber cell = Some m" by blast
      from invNumbers_range [OF inn old] have "0 < m" "m < clueCounter s" by simp_all
      then show ?thesis using keepNumber [OF cell False] counterMono g' by fastforce
    qed
    have c: "numberLocations ?s'' pos = Some m"
      if "newGrid ?s'' pos = Some cell'" "clueNumber cell' = Some m" for pos cell' m
    proof -
      from that g' have "(pos = (r0, c0) \<and> m = n) \<or> (\<exists>cell. ?g pos = Some cell \<and> clueNumber cell = Some m)"
        using numberOrigin by simp
      then show ?thesis
      proof
        assume "pos = (r0, c0) \<and> m = n"
        then show ?thesis using nl by simp
      next
        assume "\<exists>cell. ?g pos = Some cell \<and> clueNumber cell = Some m"
        then have "numberLocations s pos = Some m" using invNumbers_located [OF inn] by blast
        then show ?thesis using oldNumber by simp
      qed
    qed
    have d: "pos = pos'"
      if "numberLocations ?s'' pos = Some m" "numberLocations ?s'' pos' = Some m" for pos pos' m
    proof -
      have fresh: "q = (r0, c0)" if q: "numberLocations s q = Some n" for q
      proof (cases "numberLocations s (r0, c0)")
        case None
        then show ?thesis using n invNumbers_range [OF inn q] by simp
      next
        case (Some k)
        then show ?thesis using n invNumbers_inj [OF inn q, of "(r0, c0)"] by simp
      qed
      show ?thesis
      proof (cases "pos = (r0, c0)")
        case True
        note p = this
        show ?thesis
        proof (cases "pos' = (r0, c0)")
          case True
          with p show ?thesis by simp
        next
          case False
          with that(2) nl have "numberLocations s pos' = Some m" by simp
          moreover from p that(1) nl have "m = n" by simp
          ultimately show ?thesis using fresh p by simp
        qed
      next
        case False
        note p = this
        with that(1) nl have old: "numberLocations s pos = Some m" by simp
        show ?thesis
        proof (cases "pos' = (r0, c0)")
          case True
          with that(2) nl have "m = n" by simp
          with old fresh True show ?thesis by simp
        next
          case False
          with that(2) nl have "numberLocations s pos' = Some m" by simp
          with old show ?thesis using invNumbers_inj [OF inn] by blast
        qed
      qed
    qed
    show ?thesis
      unfolding invNumbers_def
    proof (intro conjI allI impI)
      show "0 < clueCounter ?s''" by (rule a)
    next
      fix pos m assume "numberLocations ?s'' pos = Some m"
      from b [OF this] show "0 < m" "m < clueCounter ?s''"
        "\<exists>cell. newGrid ?s'' pos = Some cell \<and> clueNumber cell = Some m"
        by blast+
    next
      fix pos cell m assume "newGrid ?s'' pos = Some cell \<and> clueNumber cell = Some m"
      then show "numberLocations ?s'' pos = Some m" using c by blast
    next
      fix pos pos' m
      assume "numberLocations ?s'' pos = Some m \<and> numberLocations ?s'' pos' = Some m"
      then show "pos = pos'" using d by blast
    qed
  qed
  \<comment> \<open>the clue lists\<close>
  moreover have "invClues ?s''"
  proof -
    have step: "cluesFrom ?s'' d' (if d = d' then cs @ [(n, clue wordObj)] else cs)"
      if "cluesFrom s d' cs" for d' cs
      unfolding cluesFrom_def
    proof
      fix nc assume "nc \<in> set (if d = d' then cs @ [(n, clue wordObj)] else cs)"
      then consider "nc \<in> set cs" | "d = d'" "nc = (n, clue wordObj)"
        by (auto split: if_splits)
      then show "\<exists>p \<in> set (placedWords ?s''). direction p = d' \<and>
          numberLocations ?s'' (row p, col p) = Some (fst nc) \<and> clue p = snd nc"
      proof cases
        case 1
        with that obtain p where "p \<in> set (placedWords s)" "direction p = d'"
          "numberLocations s (row p, col p) = Some (fst nc)" "clue p = snd nc"
          by (auto simp: cluesFrom_def)
        then show ?thesis using oldNumber pw by auto
      next
        case 2
        then show ?thesis using nl by (intro bexI [of _ "placedAt wordObj r0 c0 d"]) auto
      qed
    qed
    from ic have "cluesFrom s Across (acrossClues s)" "cluesFrom s Down (downClues s)"
      by (simp_all add: invClues_def)
    from step [OF this(1)] step [OF this(2)] show ?thesis
      using ac dc by (cases d) (auto simp: invClues_def cluesFrom_def)
  qed
  \<comment> \<open>every placed word has its clue\<close>
  moreover have "wordsHaveClues ?s''"
    unfolding wordsHaveClues_def
  proof (intro ballI allI impI)
    fix p m assume p: "p \<in> set (placedWords ?s'')"
      and m: "numberLocations ?s'' (row p, col p) = Some m"
    from p consider "p \<in> set (placedWords s)" | "p = placedAt wordObj r0 c0 d"
      using pw by auto
    then show "(m, clue p) \<in> set (if direction p = Across then acrossClues ?s'' else downClues ?s'')"
    proof cases
      case 1
      with ip obtain k where k: "numberLocations s (row p, col p) = Some k"
        by (auto simp: invPlaced_def)
      with oldNumber m have "k = m" by fastforce
      with wc 1 k have "(m, clue p) \<in> set (if direction p = Across then acrossClues s else downClues s)"
        by (auto simp: wordsHaveClues_def)
      then show ?thesis using ac dc by (auto split: if_splits)
    next
      case 2
      with m nl have "m = n" by simp
      then show ?thesis using 2 ac dc by (cases d) auto
    qed
  qed
  ultimately show ?thesis by (simp add: genInv_def)
qed

lemma truthyCell_defined: "rowDefined r \<Longrightarrow> truthyCell g r c = Inr (g (r, c) \<noteq> None)"
  by (simp add: truthyCell_def)

lemma rowDefined_pred: "rowDefined r \<Longrightarrow> 0 < r \<Longrightarrow> rowDefined (r - 1)"
  by (simp add: rowDefined_def)

lemma rowDefined_succ: "rowDefined r \<Longrightarrow> r < GRID_SIZE - 1 \<Longrightarrow> rowDefined (r + 1)"
  by (simp add: rowDefined_def)

text \<open>One step of the loop, when the row of the cell is defined.\<close>

lemma checkLetters_Cons:
  assumes "rowDefined (fst (letterPos d r0 c0 i))"
  shows "\<exists>b. checkLetters g d r0 c0 i (x # xs) =
           (if b then checkLetters g d r0 c0 (Suc i) xs else Inr False) \<and>
           (b \<longrightarrow> (\<forall>cell. g (letterPos d r0 c0 i) = Some cell \<longrightarrow> letter cell = x))"
proof -
  obtain r c where rc: "letterPos d r0 c0 i = (r, c)" by (cases "letterPos d r0 c0 i")
  with assms have r: "rowDefined r" by simp
  define B where "B =
     (case g (r, c) of
        Some cell \<Rightarrow> letter cell = x
      | None \<Rightarrow>
          (if d = Across
           then \<not> (0 < r \<and> g (r - 1, c) \<noteq> None) \<and> \<not> (r < GRID_SIZE - 1 \<and> g (r + 1, c) \<noteq> None)
           else \<not> (0 < c \<and> g (r, c - 1) \<noteq> None) \<and> \<not> (c < GRID_SIZE - 1 \<and> g (r, c + 1) \<noteq> None)))"
  have "checkLetters g d r0 c0 i (x # xs) =
          (if B then checkLetters g d r0 c0 (Suc i) xs else Inr False)"
    using rc r rowDefined_pred [OF r] rowDefined_succ [OF r]
    by (cases "d = Across")
       (auto simp: B_def truthyCell_defined bool_case_if split: option.splits)
  moreover have "B \<longrightarrow> (\<forall>cell. g (letterPos d r0 c0 i) = Some cell \<longrightarrow> letter cell = x)"
    using rc by (auto simp: B_def)
  ultimately show ?thesis by blast
qed

lemma checkLetters_total:
  "\<forall>k < length xs. rowDefined (fst (letterPos d r0 c0 (i + k))) \<Longrightarrow>
   \<exists>b. checkLetters g d r0 c0 i xs = Inr b"
proof (induction xs arbitrary: i)
  case Nil
  then show ?case by auto
next
  case (Cons x xs)
  from Cons.prems have here: "rowDefined (fst (letterPos d r0 c0 i))" by force
  from Cons.prems have rest: "\<forall>k < length xs. rowDefined (fst (letterPos d r0 c0 (Suc i + k)))"
    by force
  from checkLetters_Cons [OF here, of g x xs] Cons.IH [OF rest] show ?case
    by (metis (full_types))
qed

lemma checkLetters_True:
  "checkLetters g d r0 c0 i xs = Inr True \<Longrightarrow> k < length xs \<Longrightarrow>
   rowDefined (fst (letterPos d r0 c0 (i + k))) \<and>
   (\<forall>cell. g (letterPos d r0 c0 (i + k)) = Some cell \<longrightarrow> letter cell = xs ! k)"
proof (induction xs arbitrary: i k)
  case Nil
  then show ?case by simp
next
  case (Cons x xs)
  have here: "rowDefined (fst (letterPos d r0 c0 i))"
    using Cons.prems(1) by (cases "letterPos d r0 c0 i") (auto split: if_splits)
  from checkLetters_Cons [OF here, of g x xs] Cons.prems(1)
  have tail: "checkLetters g d r0 c0 (Suc i) xs = Inr True"
    and head: "\<forall>cell. g (letterPos d r0 c0 i) = Some cell \<longrightarrow> letter cell = x"
    by (auto split: if_splits)
  show ?case
  proof (cases k)
    case 0
    then show ?thesis using here head by simp
  next
    case (Suc k')
    then have "k' < length xs" using Cons.prems(2) by simp
    from Cons.IH [OF tail this] show ?thesis using Suc by simp
  qed
qed

lemma canPlaceWord_True_checkLetters:
  "canPlaceWord g w r0 c0 d = Inr True \<Longrightarrow> checkLetters g d r0 c0 0 w = Inr True"
  by (cases d) (auto simp: canPlaceWord_def split: if_splits sum.splits bool.splits)

lemma canPlaceWord_True_compatible:
  assumes "canPlaceWord g w r0 c0 d = Inr True"
  shows "compatible g w r0 c0 d"
  unfolding compatible_def
  using checkLetters_True [OF canPlaceWord_True_checkLetters [OF assms], of _ ] by simp

lemma canPlaceWord_total:
  assumes "d = Across \<longrightarrow> rowDefined r0"
  shows "\<exists>b. canPlaceWord g w r0 c0 d = Inr b"
proof (cases d)
  case Across
  with assms have r: "rowDefined r0" by simp
  then have "\<forall>k < length w. rowDefined (fst (letterPos Across r0 c0 (0 + k)))"
    by (simp add: letterPos_def)
  from checkLetters_total [OF this, of g] obtain b where "checkLetters g Across r0 c0 0 w = Inr b" ..
  then show ?thesis
    using Across r by (auto simp: canPlaceWord_def truthyCell_defined bool_case_if)
next
  case Down
  show ?thesis
  proof (cases "r0 < 0 \<or> c0 < 0 \<or> r0 + int (length w) > GRID_SIZE")
    case True
    then show ?thesis using Down by (auto simp: canPlaceWord_def)
  next
    case False
    then have rows: "\<forall>k < length w. rowDefined (fst (letterPos Down r0 c0 (0 + k)))"
      by (auto simp: letterPos_def rowDefined_def)
    from checkLetters_total [OF this, of g] obtain b where "checkLetters g Down r0 c0 0 w = Inr b" ..
    moreover have "0 < r0 \<Longrightarrow> rowDefined (r0 - 1)"
      using False by (simp add: rowDefined_def)
    moreover have "r0 + int (length w) < GRID_SIZE \<Longrightarrow> rowDefined (r0 + int (length w))"
      using False by (simp add: rowDefined_def)
    ultimately show ?thesis
      using Down False by (auto simp: canPlaceWord_def truthyCell_defined bool_case_if)
  qed
qed

lemma forEachE_invariant:
  assumes "P acc"
    and "\<And>x a. x \<in> set xs \<Longrightarrow> P a \<Longrightarrow> \<exists>a'. f x a = Inr a' \<and> P a'"
  shows "\<exists>a'. forEachE f xs acc = Inr a' \<and> P a'"
  using assms
proof (induction xs arbitrary: acc)
  case Nil
  then show ?case by simp
next
  case (Cons x xs)
  from Cons.prems(2) [of x acc] Cons.prems(1) obtain a1 where a1: "f x acc = Inr a1" "P a1"
    by auto
  have "\<exists>a'. forEachE f xs a1 = Inr a' \<and> P a'"
    by (rule Cons.IH [OF a1(2)]) (simp add: Cons.prems(2))
  then show ?case using a1(1) by simp
qed

lemma tryCrossing_ok:
  assumes rows: "wordRowsOk pWord" and k: "k < length (word pWord)" and ok: "bestOk g w acc"
  shows "\<exists>acc'. tryCrossing g w j pWord k acc = Inr acc' \<and> bestOk g w acc'"
proof (cases "w ! j = word pWord ! k")
  case False
  then show ?thesis using ok by (simp add: tryCrossing_def)
next
  case True
  define d where "d = (if direction pWord = Across then Down else Across)"
  define r where "r = (if d = Down then row pWord - int j else row pWord + int k)"
  define c where "c = (if d = Down then col pWord + int k else col pWord - int j)"
  have "d = Across \<longrightarrow> rowDefined r"
  proof
    assume "d = Across"
    then have "direction pWord = Down" by (auto simp: d_def split: if_splits) (cases "direction pWord", auto)
    with rows k show "rowDefined r"
      using \<open>d = Across\<close> by (auto simp: wordRowsOk_def letterPos_def r_def)
  qed
  from canPlaceWord_total [OF this, of g w c] obtain b where b: "canPlaceWord g w r c d = Inr b" ..
  show ?thesis
  proof (cases b)
    case False
    with b True ok show ?thesis
      by (simp add: tryCrossing_def Let_def d_def [symmetric] r_def [symmetric] c_def [symmetric])
  next
    case bt: True
    have "bestOk g w (Some (r, c, d), countIntersections g w r c d)"
      using b bt by (simp add: bestOk_def)
    with b bt True ok show ?thesis
      by (cases acc)
         (auto simp: tryCrossing_def Let_def d_def [symmetric] r_def [symmetric] c_def [symmetric])
  qed
qed

lemma findBestFit_ok:
  assumes "\<forall>p \<in> set pws. wordRowsOk p"
  shows "\<exists>acc. findBestFit g pws w = Inr acc \<and> bestOk g w acc"
  unfolding findBestFit_def
proof (rule forEachE_invariant)
  show "bestOk g w (None, 0)" by (simp add: bestOk_def)
next
  fix j a assume "bestOk g w a"
  then show "\<exists>a'. forEachE (\<lambda>pWord. forEachE (\<lambda>k. tryCrossing g w j pWord k)
                                 [0..<length (word pWord)]) pws a = Inr a' \<and> bestOk g w a'"
  proof (rule forEachE_invariant)
    fix p a assume p: "p \<in> set pws" and "bestOk g w a"
    from this(2) show "\<exists>a'. forEachE (\<lambda>k. tryCrossing g w j p k) [0..<length (word p)] a = Inr a' \<and>
        bestOk g w a'"
    proof (rule forEachE_invariant)
      fix k a assume "k \<in> set [0..<length (word p)]" and "bestOk g w a"
      then show "\<exists>a'. tryCrossing g w j p k a = Inr a' \<and> bestOk g w a'"
        using tryCrossing_ok [of p k g w a j] assms p by simp
    qed
  qed
qed

lemma scanWords_ok:
  assumes inv: "genInv s" and ne: "\<forall>e \<in> set ws. word e \<noteq> []" and n: "n \<le> length ws"
  shows "\<exists>res. scanWords s ws n = Inr res \<and>
           (\<forall>s' ws'. res = Some (s', ws') \<longrightarrow>
              genInv s' \<and> Suc (length ws') = length ws \<and> set ws' \<subseteq> set ws \<and>
              (\<exists>e \<in> set ws. \<exists>r c d. placedWords s' = placedWords s @ [placedAt e r c d]))"
  using n
proof (induction n)
  case 0
  then show ?case by simp
next
  case (Suc i)
  then have i: "i < length ws" by simp
  from inv have rows: "\<forall>p \<in> set (placedWords s). wordRowsOk p"
    by (simp add: genInv_def invPlaced_def)
  from findBestFit_ok [OF rows, of "newGrid s" "word (ws ! i)"] obtain best m where
    fb: "findBestFit (newGrid s) (placedWords s) (word (ws ! i)) = Inr (best, m)"
    and ok: "bestOk (newGrid s) (word (ws ! i)) (best, m)"
    by (metis surj_pair)
  from Suc have IH: "\<exists>res. scanWords s ws i = Inr res \<and>
           (\<forall>s' ws'. res = Some (s', ws') \<longrightarrow>
              genInv s' \<and> Suc (length ws') = length ws \<and> set ws' \<subseteq> set ws \<and>
              (\<exists>e \<in> set ws. \<exists>r c d. placedWords s' = placedWords s @ [placedAt e r c d]))"
    by simp
  show ?case
  proof (cases "\<exists>r c d. best = Some (r, c, d) \<and> 0 < m")
    case False
    then have "scanWords s ws (Suc i) = scanWords s ws i"
      using fb by (auto simp: Let_def split: option.splits)
    with IH show ?thesis by simp
  next
    case True
    then obtain r c d where best: "best = Some (r, c, d)" and m: "0 < m" by blast
    with ok have cp: "canPlaceWord (newGrid s) (word (ws ! i)) r c d = Inr True"
      by (simp add: bestOk_def)
    then have compat: "compatible (newGrid s) (word (ws ! i)) r c d"
      by (rule canPlaceWord_True_compatible)
    from ne i have wne: "word (ws ! i) \<noteq> []" by simp
    from compat have "\<forall>k < length (word (ws ! i)). rowDefined (fst (letterPos d r c k))"
      by (simp add: compatible_def)
    from placeWordOnGrid_succeeds [OF this, of s] obtain s' where
      pl: "placeWordOnGrid s (ws ! i) r c d = Inr s'" ..
    have "genInv (s'\<lparr>placedWords := placedWords s' @ [placedAt (ws ! i) r c d]\<rparr>)"
      by (rule commit_genInv [OF inv wne compat pl])
    moreover have "Suc (length (take i ws @ drop (Suc i) ws)) = length ws"
      using i by simp
    moreover have "set (take i ws @ drop (Suc i) ws) \<subseteq> set ws"
      by (auto dest: in_set_takeD in_set_dropD)
    moreover have "\<exists>e \<in> set ws. \<exists>r' c' d'.
        placedWords s' @ [placedAt (ws ! i) r c d] = placedWords s @ [placedAt e r' c' d']"
    proof -
      have "placedWords s' = placedWords s"
        using pl by (rule placeWordOnGrid_Inr)
      moreover have "ws ! i \<in> set ws" using i by simp
      ultimately show ?thesis by blast
    qed
    ultimately show ?thesis
      using fb best m pl by (simp add: Let_def)
  qed
qed

lemma placementLoop_ok:
  assumes "genInv s" and "\<forall>e \<in> set ws. word e \<noteq> []" and "attempts \<le> length ws"
  shows "\<exists>s' ws' n. placementLoop s ws attempts passes = Inr (s', ws', n) \<and> genInv s' \<and>
           set ws' \<subseteq> set ws \<and>
           (\<forall>p \<in> set (placedWords s').
              p \<in> set (placedWords s) \<or> (\<exists>e \<in> set ws. \<exists>r c d. p = placedAt e r c d)) \<and>
           2 * n + 2 * attempts \<le> 2 * passes + length ws * (length ws + 1)"
  using assms
proof (induction s ws attempts passes rule: placementLoop.induct)
  case (1 s ws attempts passes)
  show ?case
  proof (cases "length ws > 0 \<and> attempts < length ws")
    case False
    with "1.prems" have "2 * attempts \<le> length ws * (length ws + 1)"
      by (cases "length ws") auto
    with False "1.prems" show ?thesis
      by (subst placementLoop.simps) auto
  next
    case True
    from scanWords_ok [OF "1.prems"(1,2) le_refl] obtain res where
      sc: "scanWords s ws (length ws) = Inr res"
      and res: "\<forall>s' ws'. res = Some (s', ws') \<longrightarrow>
              genInv s' \<and> Suc (length ws') = length ws \<and> set ws' \<subseteq> set ws \<and>
              (\<exists>e \<in> set ws. \<exists>r c d. placedWords s' = placedWords s @ [placedAt e r c d])"
      by blast
    show ?thesis
    proof (cases res)
      case None
      from True have "attempts + 1 \<le> length ws" by simp
      from "1.IH"(1) [OF True sc None "1.prems"(1,2) this]
      obtain s' ws' n where
        "placementLoop s ws (attempts + 1) (passes + 1) = Inr (s', ws', n)" "genInv s'"
        "set ws' \<subseteq> set ws"
        "\<forall>p \<in> set (placedWords s').
              p \<in> set (placedWords s) \<or> (\<exists>e \<in> set ws. \<exists>r c d. p = placedAt e r c d)"
        "2 * n + 2 * (attempts + 1) \<le> 2 * (passes + 1) + length ws * (length ws + 1)"
        by blast
      then show ?thesis
        using True sc None by (subst placementLoop.simps) auto
    next
      case (Some pair)
      obtain s1 ws1 where pair: "pair = (s1, ws1)" by (cases pair)
      with res Some have s1: "genInv s1" and len: "Suc (length ws1) = length ws"
        and sub: "set ws1 \<subseteq> set ws"
        and new: "\<exists>e \<in> set ws. \<exists>r c d. placedWords s1 = placedWords s @ [placedAt e r c d]"
        by auto
      from sub "1.prems"(2) have ne1: "\<forall>e \<in> set ws1. word e \<noteq> []" by blast
      from "1.IH"(2) [OF True sc Some pair [symmetric] s1 ne1]
      obtain s' ws' n where
        r: "placementLoop s1 ws1 0 (passes + 1) = Inr (s', ws', n)" "genInv s'"
        "set ws' \<subseteq> set ws1"
        "\<forall>p \<in> set (placedWords s').
              p \<in> set (placedWords s1) \<or> (\<exists>e \<in> set ws1. \<exists>r c d. p = placedAt e r c d)"
        "2 * n + 2 * 0 \<le> 2 * (passes + 1) + length ws1 * (length ws1 + 1)"
        by auto
      have bound: "2 * n + 2 * attempts \<le> 2 * passes + length ws * (length ws + 1)"
        using r(5) True len [symmetric] by simp
      have origin: "\<forall>p \<in> set (placedWords s').
              p \<in> set (placedWords s) \<or> (\<exists>e \<in> set ws. \<exists>r c d. p = placedAt e r c d)"
      proof
        fix p assume "p \<in> set (placedWords s')"
        with r(4) consider "p \<in> set (placedWords s1)" | "\<exists>e \<in> set ws1. \<exists>r c d. p = placedAt e r c d"
          by blast
        then show "p \<in> set (placedWords s) \<or> (\<exists>e \<in> set ws. \<exists>r c d. p = placedAt e r c d)"
        proof cases
          case 1
          with new show ?thesis by auto
        next
          case 2
          with sub show ?thesis by blast
        qed
      qed
      have "placementLoop s ws attempts passes = Inr (s', ws', n)"
        using True sc Some pair r(1) by (subst placementLoop.simps) simp
      with r(2,3) sub bound origin show ?thesis by blast
    qed
  qed
qed

lemma prepareWords_set:
  "set (prepareWords rt es) = set (dedupeWords (normalizeEntries rt es))"
  by (simp add: prepareWords_def sortWords_def)

lemma prepareWords_length:
  "length (prepareWords rt es) = length (dedupeWords (normalizeEntries rt es))"
  by (simp add: prepareWords_def sortWords_def)

lemma prepareWords_words:
  "e \<in> set (prepareWords rt es) \<Longrightarrow> 1 < length (word e) \<and> clue e \<noteq> []"
  by (auto simp: prepareWords_set dedupeWords_mem normalizeEntries_def keepEntry_def)

lemma genInv_initial: "genInv initialGenState"
  by (simp add: genInv_def invPlaced_def invNumbers_def invClues_def cluesFrom_def
      wordsHaveClues_def initialGenState_def emptyGrid_def)

lemma buildPuzzle_ok:
  assumes len: "2 \<le> length ws" and ne: "\<forall>e \<in> set ws. word e \<noteq> []"
  shows "\<exists>s rest n.
           buildPuzzle ws =
             Inr \<lparr> puzzle = \<lparr> grid = newGrid s,
                              cluesAcross = sort_key fst (acrossClues s),
                              cluesDown = sort_key fst (downClues s) \<rparr>,
                   placed = placedWords s, unplaced = rest, passCount = n \<rparr> \<and>
           genInv s \<and> set rest \<subseteq> set ws \<and>
           (\<forall>p \<in> set (placedWords s). \<exists>e \<in> set ws. \<exists>r c d. p = placedAt e r c d) \<and>
           2 * n \<le> (length ws - 1) * length ws"
proof -
  from len obtain firstWord rest0 where ws: "ws = firstWord # rest0"
    by (cases ws) auto
  define startRow where "startRow = GRID_SIZE div 2"
  define startCol where "startCol = (GRID_SIZE - int (length (word firstWord))) div 2"
  from ne ws have fne: "word firstWord \<noteq> []" by simp
  have compat: "compatible (newGrid initialGenState) (word firstWord) startRow startCol Across"
    by (simp add: compatible_def initialGenState_def emptyGrid_def letterPos_def rowDefined_def
        startRow_def GRID_SIZE_def)
  then have "\<forall>k < length (word firstWord). rowDefined (fst (letterPos Across startRow startCol k))"
    by (simp add: compatible_def)
  from placeWordOnGrid_succeeds [OF this, of initialGenState] obtain s1 where
    pl: "placeWordOnGrid initialGenState firstWord startRow startCol Across = Inr s1" ..
  let ?s2 = "s1\<lparr>placedWords := placedWords s1 @ [placedAt firstWord startRow startCol Across]\<rparr>"
  have inv2: "genInv ?s2"
    by (rule commit_genInv [OF genInv_initial fne compat pl])
  have pw1: "placedWords s1 = []"
    using pl by (rule placeWordOnGrid_Inr) (simp add: initialGenState_def)
  from ne ws have ne0: "\<forall>e \<in> set rest0. word e \<noteq> []" by simp
  from placementLoop_ok [OF inv2 ne0, of 0 0] obtain s rest n where
    loop: "placementLoop ?s2 rest0 0 0 = Inr (s, rest, n)" and inv: "genInv s"
    and sub: "set rest \<subseteq> set rest0"
    and origin: "\<forall>p \<in> set (placedWords s).
              p \<in> set (placedWords ?s2) \<or> (\<exists>e \<in> set rest0. \<exists>r c d. p = placedAt e r c d)"
    and bound: "2 * n + 2 * 0 \<le> 2 * 0 + length rest0 * (length rest0 + 1)"
    by auto
  have "buildPuzzle ws =
             Inr \<lparr> puzzle = \<lparr> grid = newGrid s,
                              cluesAcross = sort_key fst (acrossClues s),
                              cluesDown = sort_key fst (downClues s) \<rparr>,
                   placed = placedWords s, unplaced = rest, passCount = n \<rparr>"
    using len ws pl loop
    by (auto simp: buildPuzzle_def Let_def startRow_def [symmetric] startCol_def [symmetric])
  moreover have "set rest \<subseteq> set ws" using sub ws by auto
  moreover have "\<forall>p \<in> set (placedWords s). \<exists>e \<in> set ws. \<exists>r c d. p = placedAt e r c d"
  proof
    fix p assume "p \<in> set (placedWords s)"
    with origin consider "p \<in> set (placedWords ?s2)" | "\<exists>e \<in> set rest0. \<exists>r c d. p = placedAt e r c d"
      by blast
    then show "\<exists>e \<in> set ws. \<exists>r c d. p = placedAt e r c d"
    proof cases
      case 1
      then have "p = placedAt firstWord startRow startCol Across" using pw1 by simp
      then show ?thesis using ws by auto
    next
      case 2
      then show ?thesis using ws by auto
    qed
  qed
  moreover have "2 * n \<le> (length ws - 1) * length ws"
    using bound ws by simp
  ultimately show ?thesis using inv by blast
qed

lemma pass_bound_square:
  fixes n L :: nat
  assumes "2 * n \<le> (L - 1) * L"
  shows "n \<le> (L - 1)\<^sup>2" and "n \<le> L\<^sup>2"
proof -
  have "(L - 1) * L \<le> 2 * (L - 1)\<^sup>2"
  proof (cases L)
    case 0
    then show ?thesis by simp
  next
    case (Suc k)
    have "k * Suc k \<le> 2 * (k * k)" by (cases k) auto
    then show ?thesis using Suc by (simp add: power2_eq_square)
  qed
  with assms show "n \<le> (L - 1)\<^sup>2" by linarith
  moreover have "(L - 1)\<^sup>2 \<le> L\<^sup>2" by (simp add: power2_nat_le_eq_le)
  ultimately show "n \<le> L\<^sup>2" by linarith
qed

section \<open>Short words stay inside the grid\<close>

lemma canPlaceWord_True_bounds:
  "canPlaceWord g w r c d = Inr True \<Longrightarrow>
     0 \<le> r \<and> 0 \<le> c \<and>
     (if d = Across then c + int (length w) \<le> GRID_SIZE else r + int (length w) \<le> GRID_SIZE)"
  by (auto simp: canPlaceWord_def split: if_splits)

lemma forEachE_preserves:
  assumes "forEachE f xs acc = Inr acc'" and "P acc"
    and "\<And>x a a'. x \<in> set xs \<Longrightarrow> P a \<Longrightarrow> f x a = Inr a' \<Longrightarrow> P a'"
  shows "P acc'"
  using assms
proof (induction xs arbitrary: acc)
  case Nil
  then show ?case by simp
next
  case (Cons x xs)
  from Cons.prems(1) obtain a1 where a1: "f x acc = Inr a1" and rest: "forEachE f xs a1 = Inr acc'"
    by (auto split: sum.splits)
  have "P a1" using Cons.prems(3) [of x acc a1] Cons.prems(2) a1 by simp
  show ?case
    by (rule Cons.IH [OF rest \<open>P a1\<close>]) (use Cons.prems(3) in auto)
qed

lemma tryCrossing_inside:
  assumes inside: "wordInside pWord" and k: "k < length (word pWord)"
    and acc: "bestInside w acc" and step: "tryCrossing g w j pWord k acc = Inr acc'"
  shows "bestInside w acc'"
proof (cases "w ! j = word pWord ! k")
  case False
  with step acc show ?thesis by (simp add: tryCrossing_def)
next
  case True
  define d where "d = (if direction pWord = Across then Down else Across)"
  define r where "r = (if d = Down then row pWord - int j else row pWord + int k)"
  define c where "c = (if d = Down then col pWord + int k else col pWord - int j)"
  from inside k have cross: "insideGrid (letterPos (direction pWord) (row pWord) (col pWord) k)"
    by (simp add: wordInside_def)
  show ?thesis
  proof (cases "canPlaceWord g w r c d = Inr True")
    case False
    with step True acc show ?thesis
      by (auto simp: tryCrossing_def Let_def d_def [symmetric] r_def [symmetric] c_def [symmetric]
          split: sum.splits bool.splits)
  next
    case can: True
    from canPlaceWord_True_bounds [OF can] cross
    have "\<forall>i < length w. insideGrid (letterPos d r c i)"
      by (cases "direction pWord")
         (auto simp: d_def r_def c_def letterPos_def insideGrid_def split: if_splits)
    then have "bestInside w (Some (r, c, d), n)" for n
      by (simp add: bestInside_def)
    with step True acc can show ?thesis
      by (auto simp: tryCrossing_def Let_def d_def [symmetric] r_def [symmetric] c_def [symmetric]
          split: if_splits)
  qed
qed

lemma findBestFit_inside:
  assumes "\<forall>p \<in> set pws. wordInside p" and "findBestFit g pws w = Inr acc"
  shows "bestInside w acc"
proof (rule forEachE_preserves [OF assms(2) [unfolded findBestFit_def]])
  show "bestInside w (None, 0)" by (simp add: bestInside_def)
next
  fix j a a'
  assume "bestInside w a"
    and "forEachE (\<lambda>pWord. forEachE (\<lambda>k. tryCrossing g w j pWord k)
            [0..<length (word pWord)]) pws a = Inr a'"
  from this(2,1) show "bestInside w a'"
  proof (rule forEachE_preserves)
    fix p b b'
    assume p: "p \<in> set pws" and "bestInside w b"
      and "forEachE (\<lambda>k. tryCrossing g w j p k) [0..<length (word p)] b = Inr b'"
    from this(3,2) show "bestInside w b'"
    proof (rule forEachE_preserves)
      fix k e e'
      assume "k \<in> set [0..<length (word p)]" "bestInside w e" "tryCrossing g w j p k e = Inr e'"
      then show "bestInside w e'"
        using tryCrossing_inside [of p k w e g j e'] assms(1) p by simp
    qed
  qed
qed

lemma scanWords_inside:
  assumes "scanWords s ws n = Inr (Some (s', ws'))" and "invInside s"
  shows "invInside s'"
  using assms(1)
proof (induction n)
  case 0
  then show ?case by simp
next
  case (Suc i)
  show ?case
  proof (cases "findBestFit (newGrid s) (placedWords s) (word (ws ! i))")
    case (Inl e)
    with Suc.prems show ?thesis by simp
  next
    case (Inr acc)
    obtain best m where acc: "acc = (best, m)" by (cases acc)
    from assms(2) have "\<forall>p \<in> set (placedWords s). wordInside p" by (simp add: invInside_def)
    from findBestFit_inside [OF this Inr] acc have bi: "bestInside (word (ws ! i)) (best, m)"
      by simp
    show ?thesis
    proof (cases "\<exists>r c d. best = Some (r, c, d) \<and> 0 < m")
      case False
      then have "scanWords s ws (Suc i) = scanWords s ws i"
        using Inr acc by (auto simp: Let_def split: option.splits)
      with Suc show ?thesis by simp
    next
      case True
      then obtain r c d where best: "best = Some (r, c, d)" and m: "0 < m" by blast
      from Suc.prems Inr acc best m obtain s1 where
        pl: "placeWordOnGrid s (ws ! i) r c d = Inr s1"
        and s': "s' = s1\<lparr>placedWords := placedWords s1 @ [placedAt (ws ! i) r c d]\<rparr>"
        by (auto simp: Let_def split: sum.splits)
      have pw: "placedWords s1 = placedWords s"
        using pl by (rule placeWordOnGrid_Inr)
      have "wordInside (placedAt (ws ! i) r c d)"
        using bi best by (simp add: bestInside_def wordInside_def)
      with assms(2) pw s' show ?thesis
        by (auto simp: invInside_def)
    qed
  qed
qed

lemma placementLoop_inside:
  "placementLoop s ws attempts passes = Inr (s', ws', n) \<Longrightarrow> invInside s \<Longrightarrow> invInside s'"
proof (induction s ws attempts passes rule: placementLoop.induct)
  case (1 s ws attempts passes)
  show ?case
  proof (cases "length ws > 0 \<and> attempts < length ws")
    case False
    with "1.prems" show ?thesis
      by (subst (asm) placementLoop.simps) auto
  next
    case True
    show ?thesis
    proof (cases "scanWords s ws (length ws)")
      case (Inl e)
      with True "1.prems"(1) show ?thesis
        by (subst (asm) placementLoop.simps) simp
    next
      case (Inr res)
      show ?thesis
      proof (cases res)
        case None
        with True Inr "1.prems"(1)
        have "placementLoop s ws (attempts + 1) (passes + 1) = Inr (s', ws', n)"
          by (subst (asm) placementLoop.simps) simp
        from "1.IH"(1) [OF True Inr None this "1.prems"(2)] show ?thesis .
      next
        case (Some pair)
        obtain s1 ws1 where pair: "pair = (s1, ws1)" by (cases pair)
        with True Inr Some "1.prems"(1)
        have loop: "placementLoop s1 ws1 0 (passes + 1) = Inr (s', ws', n)"
          by (subst (asm) placementLoop.simps) simp
        from Inr Some pair have "scanWords s ws (length ws) = Inr (Some (s1, ws1))" by simp
        from scanWords_inside [OF this "1.prems"(2)] have "invInside s1" .
        from "1.IH"(2) [OF True Inr Some pair [symmetric] loop this] show ?thesis .
      qed
    qed
  qed
qed

lemma generatePuzzle_inside:
  assumes built: "generatePuzzle rt entries = Inr built"
    and short: "\<forall>e \<in> set (prepareWords rt entries). int (length (word e)) \<le> GRID_SIZE"
  shows "\<forall>p \<in> set (placed built). wordInside p"
proof -
  let ?ws = "prepareWords rt entries"
  from built have len: "\<not> length ?ws < 2"
    by (auto simp: generatePuzzle_def buildPuzzle_def)
  then obtain firstWord rest0 where ws: "?ws = firstWord # rest0"
    by (cases ?ws) auto
  define startCol where "startCol = (GRID_SIZE - int (length (word firstWord))) div 2"
  from built ws len obtain s1 s2 rest n where
    pl: "placeWordOnGrid initialGenState firstWord (GRID_SIZE div 2) startCol Across = Inr s1"
    and loop: "placementLoop
        (s1\<lparr>placedWords := placedWords s1 @ [placedAt firstWord (GRID_SIZE div 2) startCol Across]\<rparr>)
        rest0 0 0 = Inr (s2, rest, n)"
    and b: "placed built = placedWords s2"
    by (auto simp: generatePuzzle_def buildPuzzle_def Let_def startCol_def [symmetric]
        split: sum.splits)
  have pw1: "placedWords s1 = []"
    using pl by (rule placeWordOnGrid_Inr) (simp add: initialGenState_def)
  from short ws have "int (length (word firstWord)) \<le> GRID_SIZE" by simp
  then have "wordInside (placedAt firstWord (GRID_SIZE div 2) startCol Across)"
    by (auto simp: wordInside_def insideGrid_def letterPos_def startCol_def GRID_SIZE_def)
  then have "invInside (s1\<lparr>placedWords := placedWords s1 @ [placedAt firstWord (GRID_SIZE div 2) startCol Across]\<rparr>)"
    using pw1 by (simp add: invInside_def)
  from placementLoop_inside [OF loop this] b show ?thesis
    by (simp add: invInside_def)
qed

section \<open>Properties of the construction\<close>

lemma generatePuzzle_invalid:
  "length (prepareWords rt entries) < 2 \<Longrightarrow> generatePuzzle rt entries = Inl ValidationError"
  by (simp add: generatePuzzle_def buildPuzzle_def)

lemma generatePuzzle_ok:
  assumes "2 \<le> length (prepareWords rt entries)"
  shows "\<exists>s rest n.
           generatePuzzle rt entries =
             Inr \<lparr> puzzle = \<lparr> grid = newGrid s,
                              cluesAcross = sort_key fst (acrossClues s),
                              cluesDown = sort_key fst (downClues s) \<rparr>,
                   placed = placedWords s, unplaced = rest, passCount = n \<rparr> \<and>
           genInv s \<and> set rest \<subseteq> set (prepareWords rt entries) \<and>
           (\<forall>p \<in> set (placedWords s). \<exists>e \<in> set (prepareWords rt entries). \<exists>r c d. p = placedAt e r c d) \<and>
           2 * n \<le> (length (prepareWords rt entries) - 1) * length (prepareWords rt entries)"
proof -
  have "\<forall>e \<in> set (prepareWords rt entries). word e \<noteq> []"
    using prepareWords_words [of _ rt entries] by fastforce
  from buildPuzzle_ok [OF assms this] show ?thesis
    by (simp add: generatePuzzle_def)
qed

lemma generatePuzzle_Inr:
  assumes "generatePuzzle rt entries = Inr built"
  obtains s where "genInv s"
    and "grid (puzzle built) = newGrid s"
    and "set (cluesAcross (puzzle built)) = set (acrossClues s)"
    and "set (cluesDown (puzzle built)) = set (downClues s)"
    and "placed built = placedWords s"
    and "set (unplaced built) \<subseteq> set (prepareWords rt entries)"
    and "\<forall>p \<in> set (placed built). \<exists>e \<in> set (prepareWords rt entries). \<exists>r c d. p = placedAt e r c d"
    and "2 \<le> length (prepareWords rt entries)"
    and "2 * passCount built \<le> (length (prepareWords rt entries) - 1) * length (prepareWords rt entries)"
proof -
  have len: "2 \<le> length (prepareWords rt entries)"
  proof (rule ccontr)
    assume "\<not> 2 \<le> length (prepareWords rt entries)"
    then have "generatePuzzle rt entries = Inl ValidationError"
      by (simp add: generatePuzzle_invalid)
    with assms show False by simp
  qed
  from generatePuzzle_ok [OF len] assms obtain s rest n where
    b: "built = \<lparr> puzzle = \<lparr> grid = newGrid s,
                              cluesAcross = sort_key fst (acrossClues s),
                              cluesDown = sort_key fst (downClues s) \<rparr>,
                   placed = placedWords s, unplaced = rest, passCount = n \<rparr>"
    and rest: "genInv s" "set rest \<subseteq> set (prepareWords rt entries)"
      "\<forall>p \<in> set (placedWords s). \<exists>e \<in> set (prepareWords rt entries). \<exists>r c d. p = placedAt e r c d"
      "2 * n \<le> (length (prepareWords rt entries) - 1) * length (prepareWords rt entries)"
    by auto
  show ?thesis
    by (rule that [of s]) (use b rest len in simp_all)
qed

lemmas construction_example_simps =
  js_def rowDefined_def GRID_SIZE_def stampCell_def letterPos_def emptyGrid_def gatoGrid_def
  truthyCell_def truthyCellSafe_def canPlaceWord_def countIntersections_def tryCrossing_def
  findBestFit_def placeWordOnGrid_def placedAt_def upt_rec

lemma scenarioA_words: "prepareWords latin1Runtime scenarioA = [gato, casa]"
  by (simp add: scenarioA_def prepareWords_def sortWords_def gato_def casa_def normalize_example_simps)

lemma scenarioA_first:
  "placeWordOnGrid initialGenState gato 15 13 Across = Inr (gatoState\<lparr>placedWords := []\<rparr>)"
  by (simp add: initialGenState_def gato_def gatoState_def construction_example_simps)

lemma scenarioA_bestFit:
  "findBestFit gatoGrid [placedAt gato 15 13 Across] (js ''CASA'') = Inr (Some (14, 14, Down), 1)"
  by (simp add: gato_def construction_example_simps)

lemma scenarioA_second:
  "placeWordOnGrid gatoState casa 14 14 Down =
     Inr (casaState\<lparr>placedWords := [placedAt gato 15 13 Across]\<rparr>)"
  by (simp add: gatoState_def casaState_def casaGrid_def casa_def gato_def construction_example_simps)

lemma scenarioA_pass: "scanWords gatoState [casa] (Suc 0) = Inr (Some (casaState, []))"
  using scenarioA_bestFit scenarioA_second
  by (simp add: gatoState_def casaState_def casa_def js_def)

lemma scenarioA_loop: "placementLoop gatoState [casa] 0 0 = Inr (casaState, [], 1)"
  by (simp add: placementLoop.simps scenarioA_pass del: scanWords.simps)

lemma scenarioA_built: "generatePuzzle latin1Runtime scenarioA = Inr scenarioABuilt"
  using scenarioA_first scenarioA_loop
  by (simp add: generatePuzzle_def scenarioA_words buildPuzzle_def gato_def casa_def js_def
      GRID_SIZE_def gatoState_def casaState_def scenarioABuilt_def)

lemma sharedStart_words: "prepareWords latin1Runtime sharedStart = [casa, cal]"
  by (simp add: sharedStart_def prepareWords_def sortWords_def cal_def casa_def normalize_example_simps)

lemma sharedStart_first:
  "placeWordOnGrid initialGenState casa 15 13 Across = Inr (casaAcrossState\<lparr>placedWords := []\<rparr>)"
  by (simp add: initialGenState_def casa_def casaAcrossState_def casaAcrossGrid_def
      construction_example_simps)

lemma sharedStart_bestFit:
  "findBestFit casaAcrossGrid [placedAt casa 15 13 Across] (js ''CAL'') = Inr (Some (15, 13, Down), 1)"
  by (simp add: casa_def casaAcrossGrid_def construction_example_simps)

lemma sharedStart_second:
  "placeWordOnGrid casaAcrossState cal 15 13 Down =
     Inr (calState\<lparr>placedWords := [placedAt casa 15 13 Across]\<rparr>)"
  by (simp add: casaAcrossState_def calState_def calGrid_def casaAcrossGrid_def cal_def casa_def
      construction_example_simps)

lemma sharedStart_pass: "scanWords casaAcrossState [cal] (Suc 0) = Inr (Some (calState, []))"
  using sharedStart_bestFit sharedStart_second
  by (simp add: casaAcrossState_def calState_def cal_def js_def)

lemma sharedStart_loop: "placementLoop casaAcrossState [cal] 0 0 = Inr (calState, [], 1)"
  by (simp add: placementLoop.simps sharedStart_pass del: scanWords.simps)

lemma sharedStart_built: "generatePuzzle latin1Runtime sharedStart = Inr sharedStartBuilt"
  using sharedStart_first sharedStart_loop
  by (simp add: generatePuzzle_def sharedStart_words buildPuzzle_def cal_def casa_def js_def
      GRID_SIZE_def casaAcrossState_def calState_def sharedStartBuilt_def)

lemma scenarioB_words:
  "prepareWords latin1Runtime scenarioB = [\<lparr> word = js ''SOL'', clue = js ''Estrela'' \<rparr>]"
  by (simp add: scenarioB_def prepareWords_def sortWords_def normalize_example_simps)

lemma writeLetters_acrossWordGrid:
  assumes "rowDefined r0"
  shows "writeLetters emptyGrid Across n r0 c0 0 w = Inr (acrossWordGrid w r0 c0 n)"
proof -
  have "\<forall>k < length w. rowDefined (fst (letterPos Across r0 c0 (0 + k)))"
    using assms by (simp add: letterPos_def)
  from writeLetters_succeeds [OF this] obtain g' where
    g': "writeLetters emptyGrid Across n r0 c0 0 w = Inr g'" by blast
  have "g' pos = acrossWordGrid w r0 c0 n pos" for pos
  proof (cases "fst pos = r0 \<and> c0 \<le> snd pos \<and> snd pos < c0 + int (length w)")
    case True
    obtain c where pos: "pos = (r0, c)" and c: "c0 \<le> c" "c < c0 + int (length w)"
      using True by (cases pos) auto
    define k where "k = nat (c - c0)"
    from c have k: "k < length w" and ck: "c = c0 + int k"
      by (auto simp: k_def)
    from writeLetters_at [OF g' k]
    have "g' (r0, c0 + int k) = Some (stampCell Across n k (w ! k) None)"
      by (simp add: letterPos_def emptyGrid_def)
    then show ?thesis
      unfolding pos ck
      by (simp add: acrossWordGrid_def stampCell_def k)
  next
    case False
    then have "\<forall>k < length w. pos \<noteq> letterPos Across r0 c0 (0 + k)"
      by (auto simp: letterPos_def)
    from writeLetters_other [OF g' this] False show ?thesis
      by (simp add: acrossWordGrid_def emptyGrid_def)
  qed
  then have "g' = acrossWordGrid w r0 c0 n" by (rule ext)
  with g' show ?thesis by simp
qed

lemma forEachE_unchanged:
  "\<forall>x \<in> set xs. f x acc = Inr acc \<Longrightarrow> forEachE f xs acc = Inr acc"
  by (induction xs) auto

lemma findBestFit_no_common_letter:
  assumes "\<forall>p \<in> set pws. set w \<inter> set (word p) = {}"
  shows "findBestFit g pws w = Inr (None, 0)"
proof -
  have "tryCrossing g w j p k acc = Inr acc"
    if "j < length w" "p \<in> set pws" "k < length (word p)" for j p k acc
  proof -
    from that assms have "w ! j \<noteq> word p ! k"
      by (metis disjoint_iff nth_mem)
    then show ?thesis by (simp add: tryCrossing_def)
  qed
  then show ?thesis
    unfolding findBestFit_def
    by (intro forEachE_unchanged ballI) simp
qed

lemma longInput_words: "prepareWords latin1Runtime longInput = [longWord, kg]"
  by (simp add: longInput_def prepareWords_def sortWords_def longWord_def kg_def
      normalize_example_simps)

lemma longInput_first:
  "placeWordOnGrid initialGenState longWord 15 (- 8) Across = Inr (longState\<lparr>placedWords := []\<rparr>)"
  by (simp add: placeWordOnGrid_def initialGenState_def longState_def
      writeLetters_acrossWordGrid rowDefined_def GRID_SIZE_def)
     (simp add: longWord_def)

lemma longInput_pass: "scanWords longState [kg] (Suc 0) = Inr None"
proof -
  have "findBestFit (newGrid longState) (placedWords longState) (word kg) = Inr (None, 0)"
    by (rule findBestFit_no_common_letter) (simp add: longState_def kg_def longWord_def js_def)
  then show ?thesis by simp
qed

lemma longInput_loop: "placementLoop longState [kg] 0 0 = Inr (longState, [kg], 1)"
  by (simp add: placementLoop.simps longInput_pass del: scanWords.simps)

lemma longInput_built: "generatePuzzle latin1Runtime longInput = Inr longBuilt"
proof -
  have "(GRID_SIZE - int (length (word longWord))) div 2 = - 8"
    by (simp add: longWord_def js_def GRID_SIZE_def)
  moreover have "GRID_SIZE div 2 = 15" by (simp add: GRID_SIZE_def)
  moreover have "longState\<lparr>placedWords := placedWords (longState\<lparr>placedWords := []\<rparr>) @
      [placedAt longWord 15 (- 8) Across]\<rparr> = longState"
    by (simp add: longState_def)
  ultimately show ?thesis
    using longInput_first longInput_loop
    by (simp add: generatePuzzle_def longInput_words buildPuzzle_def longState_def longBuilt_def)
qed

lemma scenarioA_short:
  "\<forall>e \<in> set (prepareWords latin1Runtime scenarioA). int (length (word e)) \<le> GRID_SIZE"
  by (simp add: scenarioA_words gato_def casa_def js_def GRID_SIZE_def)

lemma sharedStart_short:
  "\<forall>e \<in> set (prepareWords latin1Runtime sharedStart). int (length (word e)) \<le> GRID_SIZE"
  by (simp add: sharedStart_words cal_def casa_def js_def GRID_SIZE_def)

text \<open>
  C3: for every valid input, that is whenever at least two entries are left by the
  normalisation, the construction returns a puzzle and throws nothing: the placement loop
  exits, and it does so after at most \<open>p\<^sup>2\<close> passes, where \<open>p\<close> is the number of pending words
  when the loop starts (one less than the number of entries), so after at most the square
  of the number of entries as well.  The order of the input plays no part.  That the
  loop exits in every state is the termination proof of \<open>placementLoop\<close>: a pass that
  places a word shortens the pending list and resets \<open>attempts\<close>, a pass that places
  nothing increments \<open>attempts\<close>, which stays below the length of the list.
\<close>

theorem C3_placement_terminates:
  assumes "2 \<le> length (prepareWords rt entries)"
  shows "\<exists>built. generatePuzzle rt entries = Inr built \<and>
           passCount built \<le> (length (prepareWords rt entries) - 1)\<^sup>2 \<and>
           passCount built \<le> (length (prepareWords rt entries))\<^sup>2"
proof -
  from generatePuzzle_ok [OF assms] obtain built where
    b: "generatePuzzle rt entries = Inr built"
    and "2 * passCount built \<le> (length (prepareWords rt entries) - 1) * length (prepareWords rt entries)"
    by force
  from pass_bound_square [OF this(2)] b show ?thesis by blast
qed

theorem C3_placement_terminates_witness:
  "length (prepareWords latin1Runtime scenarioA) = 2 \<and>
   generatePuzzle latin1Runtime scenarioA = Inr scenarioABuilt \<and>
   passCount scenarioABuilt = 1"
  using C3_placement_terminates [of latin1Runtime scenarioA]
  by (simp add: scenarioA_words scenarioA_built scenarioABuilt_def)

text \<open>
  C4, as stated, fails: the word of 46 letters is accepted and placed across from column
  \<open>- 8\<close>, so its first letter is not on a cell of the grid, and the word cannot be read
  from the grid cells.
\<close>

theorem C4_round_trip_counterexample:
  "generatePuzzle latin1Runtime longInput = Inr longBuilt \<and>
   placed longBuilt = [placedAt longWord 15 (- 8) Across] \<and>
   \<not> insideGrid (letterPos Across 15 (- 8) 0)"
  by (simp add: longInput_built longBuilt_def insideGrid_def)

text \<open>
  C4, amended: round trip.  In every puzzle produced from entries whose normalised words
  have at most \<open>GRID_SIZE\<close> letters, for every placed word, the word is the normalised
  word of an entry, every cell from its \<open>(row, col)\<close> along its direction for its length is
  a cell of the grid, and these cells hold exactly its letters; so two placed words that
  share a grid cell have the same letter at that cell.
\<close>

theorem C4_round_trip:
  assumes "generatePuzzle rt entries = Inr built"
    and "\<forall>e \<in> set (prepareWords rt entries). int (length (word e)) \<le> GRID_SIZE"
  shows "(\<forall>p \<in> set (placed built).
            (\<exists>e \<in> set (prepareWords rt entries). word p = word e) \<and>
            (\<forall>i < length (word p). insideGrid (letterPos (direction p) (row p) (col p) i)) \<and>
            map (\<lambda>i. map_option letter (grid (puzzle built) (letterPos (direction p) (row p) (col p) i)))
                [0..<length (word p)] = map Some (word p)) \<and>
         (\<forall>p \<in> set (placed built). \<forall>q \<in> set (placed built).
            \<forall>i < length (word p). \<forall>j < length (word q).
              letterPos (direction p) (row p) (col p) i = letterPos (direction q) (row q) (col q) j
              \<longrightarrow> word p ! i = word q ! j)"
proof -
  from assms(1) obtain s where inv: "genInv s" and g: "grid (puzzle built) = newGrid s"
    and pl: "placed built = placedWords s"
    and origin: "\<forall>p \<in> set (placed built). \<exists>e \<in> set (prepareWords rt entries). \<exists>r c d. p = placedAt e r c d"
    by (rule generatePuzzle_Inr)
  have inside: "\<forall>i < length (word p). insideGrid (letterPos (direction p) (row p) (col p) i)"
    if "p \<in> set (placed built)" for p
    using generatePuzzle_inside [OF assms] that by (simp add: wordInside_def)
  have on: "lettersOnGrid (grid (puzzle built)) p" if "p \<in> set (placed built)" for p
    using inv that g pl by (simp add: genInv_def invPlaced_def)
  have read: "map_option letter (grid (puzzle built) (letterPos (direction p) (row p) (col p) i)) = Some (word p ! i)"
    if "p \<in> set (placed built)" "i < length (word p)" for p i
    using on [OF that(1)] that(2) by (auto simp: lettersOnGrid_def)
  have "map (\<lambda>i. map_option letter (grid (puzzle built) (letterPos (direction p) (row p) (col p) i)))
                [0..<length (word p)] = map Some (word p)"
    if "p \<in> set (placed built)" for p
  proof (rule nth_equalityI)
    show "length (map (\<lambda>i. map_option letter
              (grid (puzzle built) (letterPos (direction p) (row p) (col p) i)))
            [0..<length (word p)]) = length (map Some (word p))"
      by simp
  next
    fix i
    assume "i < length (map (\<lambda>i. map_option letter
              (grid (puzzle built) (letterPos (direction p) (row p) (col p) i)))
            [0..<length (word p)])"
    then have i: "i < length (word p)" by simp
    from read [OF that i] i
    show "map (\<lambda>i. map_option letter
              (grid (puzzle built) (letterPos (direction p) (row p) (col p) i)))
            [0..<length (word p)] ! i = map Some (word p) ! i"
      by simp
  qed
  moreover have "\<exists>e \<in> set (prepareWords rt entries). word p = word e" if "p \<in> set (placed built)" for p
    using origin that by fastforce
  moreover have "word p ! i = word q ! j"
    if "p \<in> set (placed built)" "q \<in> set (placed built)" "i < length (word p)" "j < length (word q)"
      "letterPos (direction p) (row p) (col p) i = letterPos (direction q) (row q) (col q) j"
    for p q i j
    using read [OF that(1,3)] read [OF that(2,4)] that(5) by simp
  ultimately show ?thesis using inside by blast
qed

theorem C4_round_trip_witness:
  "generatePuzzle latin1Runtime scenarioA = Inr scenarioABuilt \<and>
   map (\<lambda>i. map_option letter (casaGrid (15, 13 + int i))) [0..<4] = map Some (js ''GATO'') \<and>
   map (\<lambda>i. map_option letter (casaGrid (14 + int i, 14))) [0..<4] = map Some (js ''CASA'') \<and>
   insideGrid (15, 13) \<and> insideGrid (15, 16) \<and> insideGrid (14, 14) \<and> insideGrid (17, 14)"
  using C4_round_trip [OF scenarioA_built scenarioA_short]
  by (auto simp: scenarioA_built scenarioABuilt_def gato_def casa_def letterPos_def placedAt_def
      js_def upt_rec insideGrid_def GRID_SIZE_def)

text \<open>
  C5, as stated, fails: with the word of 46 letters the across list holds the number 1,
  and no cell of the grid has \<open>clueNumber\<close> 1 (the start of the word is at column \<open>- 8\<close>).
\<close>

theorem C5_clue_numbers_counterexample:
  "generatePuzzle latin1Runtime longInput = Inr longBuilt \<and>
   cluesAcross (puzzle longBuilt) = [(1, js ''Doente dos pulmoes'')] \<and>
   \<not> (\<exists>pos. insideGrid pos \<and>
          (\<exists>cell. grid (puzzle longBuilt) pos = Some cell \<and> clueNumber cell = Some 1))"
  by (auto simp: longInput_built longBuilt_def insideGrid_def acrossWordGrid_def split: if_splits)

text \<open>
  C5, amended: clue numbering.  In every puzzle produced from entries whose normalised
  words have at most \<open>GRID_SIZE\<close> letters, for each clue number of the across or the down
  list there is exactly one cell whose \<open>clueNumber\<close> is that number, it is a cell of the
  grid, and it is the start cell of a placed word of that direction carrying that clue; a
  number that is in both lists belongs to an across word and a down word that start at
  the same cell; and an across word and a down word that start at the same cell carry the
  same number (the number is reused).
\<close>

theorem C5_clue_numbers:
  assumes "generatePuzzle rt entries = Inr built"
    and "\<forall>e \<in> set (prepareWords rt entries). int (length (word e)) \<le> GRID_SIZE"
  shows "(\<forall>nc \<in> set (cluesAcross (puzzle built)) \<union> set (cluesDown (puzzle built)).
            \<exists>pos. insideGrid pos \<and>
              (\<exists>cell. grid (puzzle built) pos = Some cell \<and> clueNumber cell = Some (fst nc)) \<and>
              (\<forall>pos'. (\<exists>cell. grid (puzzle built) pos' = Some cell \<and> clueNumber cell = Some (fst nc))
                 \<longrightarrow> pos' = pos)) \<and>
         (\<forall>nc \<in> set (cluesAcross (puzzle built)). \<exists>p \<in> set (placed built).
            direction p = Across \<and> clue p = snd nc \<and> insideGrid (row p, col p) \<and>
            (\<exists>cell. grid (puzzle built) (row p, col p) = Some cell \<and> clueNumber cell = Some (fst nc))) \<and>
         (\<forall>nc \<in> set (cluesDown (puzzle built)). \<exists>p \<in> set (placed built).
            direction p = Down \<and> clue p = snd nc \<and> insideGrid (row p, col p) \<and>
            (\<exists>cell. grid (puzzle built) (row p, col p) = Some cell \<and> clueNumber cell = Some (fst nc))) \<and>
         (\<forall>a \<in> set (cluesAcross (puzzle built)). \<forall>b \<in> set (cluesDown (puzzle built)).
            fst a = fst b \<longrightarrow>
            (\<exists>p \<in> set (placed built). \<exists>q \<in> set (placed built).
               direction p = Across \<and> direction q = Down \<and> row p = row q \<and> col p = col q \<and>
               clue p = snd a \<and> clue q = snd b)) \<and>
         (\<forall>p \<in> set (placed built). \<forall>q \<in> set (placed built).
            direction p = Across \<and> direction q = Down \<and> row p = row q \<and> col p = col q \<longrightarrow>
            (\<exists>n. (n, clue p) \<in> set (cluesAcross (puzzle built)) \<and>
                 (n, clue q) \<in> set (cluesDown (puzzle built))))"
proof -
  from assms(1) obtain s where inv: "genInv s" and g: "grid (puzzle built) = newGrid s"
    and ca: "set (cluesAcross (puzzle built)) = set (acrossClues s)"
    and cd: "set (cluesDown (puzzle built)) = set (downClues s)"
    and pl: "placed built = placedWords s"
    by (rule generatePuzzle_Inr)
  from inv have ip: "invPlaced s" and inn: "invNumbers s" and ic: "invClues s"
    and wc: "wordsHaveClues s"
    by (simp_all add: genInv_def)
  have start: "insideGrid (row p, col p)" if "p \<in> set (placedWords s)" for p
  proof -
    from ip that have "0 < length (word p)" by (simp add: invPlaced_def)
    moreover from generatePuzzle_inside [OF assms] that pl have "wordInside p" by simp
    ultimately have "insideGrid (letterPos (direction p) (row p) (col p) 0)"
      unfolding wordInside_def by blast
    then show ?thesis by simp
  qed
  have owner: "\<exists>p \<in> set (placedWords s). direction p = d \<and> clue p = snd nc \<and>
        numberLocations s (row p, col p) = Some (fst nc)"
    if "nc \<in> set (if d = Across then acrossClues s else downClues s)" for nc d
    using ic that by (cases d) (auto simp: invClues_def cluesFrom_def)
  have flagged: "\<exists>cell. newGrid s pos = Some cell \<and> clueNumber cell = Some n"
    if "numberLocations s pos = Some n" for pos n
    using invNumbers_cell [OF inn that] .
  have only: "pos = pos0"
    if "numberLocations s pos0 = Some n" "\<exists>cell. newGrid s pos = Some cell \<and> clueNumber cell = Some n"
    for pos pos0 n
  proof -
    from that(2) have "numberLocations s pos = Some n"
      using invNumbers_located [OF inn] by blast
    then show ?thesis using invNumbers_inj [OF inn _ that(1)] by blast
  qed
  have c1: "\<exists>pos. insideGrid pos \<and>
              (\<exists>cell. grid (puzzle built) pos = Some cell \<and> clueNumber cell = Some (fst nc)) \<and>
              (\<forall>pos'. (\<exists>cell. grid (puzzle built) pos' = Some cell \<and> clueNumber cell = Some (fst nc))
                 \<longrightarrow> pos' = pos)"
    if "nc \<in> set (cluesAcross (puzzle built)) \<union> set (cluesDown (puzzle built))" for nc
  proof -
    from that ca cd consider "nc \<in> set (acrossClues s)" | "nc \<in> set (downClues s)" by auto
    then obtain p :: PlacedWord where p: "p \<in> set (placedWords s)"
      and num: "numberLocations s (row p, col p) = Some (fst nc)"
      using owner [of nc Across] owner [of nc Down] by cases auto
    show ?thesis
    proof (intro exI [of _ "(row p, col p)"] conjI allI impI)
      show "insideGrid (row p, col p)" by (rule start [OF p])
      show "\<exists>cell. grid (puzzle built) (row p, col p) = Some cell \<and> clueNumber cell = Some (fst nc)"
        using flagged [OF num] g by simp
    next
      fix pos' assume "\<exists>cell. grid (puzzle built) pos' = Some cell \<and> clueNumber cell = Some (fst nc)"
      then show "pos' = (row p, col p)" using only [OF num] g by simp
    qed
  qed
  have c2: "\<exists>p \<in> set (placed built). direction p = Across \<and> clue p = snd nc \<and>
            insideGrid (row p, col p) \<and>
            (\<exists>cell. grid (puzzle built) (row p, col p) = Some cell \<and> clueNumber cell = Some (fst nc))"
    if "nc \<in> set (cluesAcross (puzzle built))" for nc
    using owner [of nc Across] that ca flagged g pl start by fastforce
  have c3: "\<exists>p \<in> set (placed built). direction p = Down \<and> clue p = snd nc \<and>
            insideGrid (row p, col p) \<and>
            (\<exists>cell. grid (puzzle built) (row p, col p) = Some cell \<and> clueNumber cell = Some (fst nc))"
    if "nc \<in> set (cluesDown (puzzle built))" for nc
    using owner [of nc Down] that cd flagged g pl start by fastforce
  have c4: "\<exists>p \<in> set (placed built). \<exists>q \<in> set (placed built).
               direction p = Across \<and> direction q = Down \<and> row p = row q \<and> col p = col q \<and>
               clue p = snd a \<and> clue q = snd b"
    if "a \<in> set (cluesAcross (puzzle built))" "b \<in> set (cluesDown (puzzle built))" "fst a = fst b"
    for a b
  proof -
    from owner [of a Across] that(1) ca obtain p where
      p: "p \<in> set (placedWords s)" "direction p = Across" "clue p = snd a"
        "numberLocations s (row p, col p) = Some (fst a)"
      by auto
    from owner [of b Down] that(2) cd obtain q where
      q: "q \<in> set (placedWords s)" "direction q = Down" "clue q = snd b"
        "numberLocations s (row q, col q) = Some (fst b)"
      by auto
    from invNumbers_inj [OF inn p(4)] q(4) that(3) have "(row p, col p) = (row q, col q)"
      by simp
    with p q pl show ?thesis by auto
  qed
  have c5: "\<exists>n. (n, clue p) \<in> set (cluesAcross (puzzle built)) \<and>
                 (n, clue q) \<in> set (cluesDown (puzzle built))"
    if "p \<in> set (placed built)" "q \<in> set (placed built)"
      "direction p = Across \<and> direction q = Down \<and> row p = row q \<and> col p = col q" for p q
  proof -
    from ip that(1) pl obtain n where n: "numberLocations s (row p, col p) = Some n"
      by (auto simp: invPlaced_def)
    with that(3) have nq: "numberLocations s (row q, col q) = Some n" by simp
    from wc that(1) pl n that(3) have "(n, clue p) \<in> set (acrossClues s)"
      by (auto simp: wordsHaveClues_def)
    moreover from wc that(2) pl nq that(3) have "(n, clue q) \<in> set (downClues s)"
      by (auto simp: wordsHaveClues_def)
    ultimately show ?thesis using ca cd by auto
  qed
  show ?thesis
    using c1 c2 c3 c4 c5 by blast
qed

theorem C5_clue_numbers_witness:
  "generatePuzzle latin1Runtime sharedStart = Inr sharedStartBuilt \<and>
   cluesAcross (puzzle sharedStartBuilt) = [(1, js ''Onde se mora'')] \<and>
   cluesDown (puzzle sharedStartBuilt) = [(1, js ''Oxido de calcio'')] \<and>
   map_option clueNumber (grid (puzzle sharedStartBuilt) (15, 13)) = Some (Some 1) \<and>
   insideGrid (15, 13) \<and>
   map (\<lambda>p. (row p, col p, direction p)) (placed sharedStartBuilt) =
     [(15, 13, Across), (15, 13, Down)]"
  using C5_clue_numbers [OF sharedStart_built sharedStart_short]
  by (simp add: sharedStart_built sharedStartBuilt_def calGrid_def placedAt_def insideGrid_def
      GRID_SIZE_def)

text \<open>
  C6: if fewer than two entries are left by the normalisation, the construction fails
  with the validation error and produces no puzzle: \<open>handleGeneratePuzzle\<close> leaves the
  saved crosswords and the active crossword as they were, keeps \<open>generatedPuzzle\<close> empty
  and shows the error.  That is the only failure: with two entries or more left, whatever
  malformed entries were dropped, the construction returns a puzzle.
\<close>

theorem C6_validation_error:
  "(length (prepareWords rt entries) < 2 \<longrightarrow> generatePuzzle rt entries = Inl ValidationError) \<and>
   (2 \<le> length (prepareWords rt entries) \<longrightarrow> (\<exists>built. generatePuzzle rt entries = Inr built)) \<and>
   (length (prepareWords rt (wordEntries (crosswordFormData st))) < 2 \<longrightarrow>
      savedCrosswords (handleGeneratePuzzle rt now st) = savedCrosswords st \<and>
      generatedPuzzle (handleGeneratePuzzle rt now st) = None \<and>
      activeCrosswordId (handleGeneratePuzzle rt now st) = activeCrosswordId st \<and>
      generationError (handleGeneratePuzzle rt now st) = ErrorMessage ValidationError)"
proof -
  have "\<exists>built. generatePuzzle rt entries = Inr built" if "2 \<le> length (prepareWords rt entries)"
    using generatePuzzle_ok [OF that] by blast
  then show ?thesis
    by (simp add: generatePuzzle_invalid handleGeneratePuzzle_def Let_def)
qed

theorem C6_validation_error_witness:
  "length (prepareWords latin1Runtime scenarioB) = 1 \<and>
   generatePuzzle latin1Runtime scenarioB = Inl ValidationError \<and>
   savedCrosswords (handleGeneratePuzzle latin1Runtime 7 exampleApp) = [] \<and>
   generatedPuzzle (handleGeneratePuzzle latin1Runtime 7 exampleApp) = None \<and>
   generationError (handleGeneratePuzzle latin1Runtime 7 exampleApp) = ErrorMessage ValidationError \<and>
   length (prepareWords latin1Runtime scenarioA) = 2 \<and>
   generatePuzzle latin1Runtime scenarioA = Inr scenarioABuilt"
  using C6_validation_error [of latin1Runtime scenarioB exampleApp 7]
    C6_validation_error [of latin1Runtime scenarioA exampleApp 7]
  by (simp add: scenarioB_words scenarioA_words scenarioA_built exampleApp_def)

end
